theory Spec2Isabelle
  imports Complex_Main "HOL-Library.Word" "HOL-Library.AList"
begin

section \<open>The platform: numbers, ArrayBuffer and DataView\<close>

text \<open>
  The two struct builders of \<^verbatim>\<open>index.ts\<close> rest on the DataView accessors of the
  JavaScript platform. This section models the part of the platform the builders use:
  numbers, the conversions the accessors apply, and a DataView over an ArrayBuffer.
  An operation that can throw returns a sum, with the exception on the left.
\<close>

datatype error = RangeError | TypeError | SyntaxError

type_synonym byte = "8 word"

text \<open>
  A JavaScript number is NaN, an infinity, negative zero, or a finite value; the finite
  values of the platform are the IEEE-754 doubles, a subset of the rationals.
\<close>

datatype number = NaN | PosInfinity | NegInfinity | NegZero | Val rat

text \<open>A property read yields \<open>None\<close> for \<^verbatim>\<open>undefined\<close>; ToNumber maps it to NaN.\<close>

definition ToNumber :: "number option \<Rightarrow> number" where
  "ToNumber v = (case v of None \<Rightarrow> NaN | Some x \<Rightarrow> x)"

text \<open>
  ToUint8, ToUint16 and ToUint32: NaN, the infinities and the zeros give 0, a finite
  value is truncated towards zero and reduced modulo \<open>2 ^ bits\<close>.
\<close>

definition ToUint :: "nat \<Rightarrow> number \<Rightarrow> nat" where
  "ToUint bits x =
     (case x of
        Val r \<Rightarrow> nat ((if r < 0 then \<lceil>r\<rceil> else \<lfloor>r\<rfloor>) mod 2 ^ bits)
      | _ \<Rightarrow> 0)"

subsection \<open>Byte order\<close>

fun le_bytes :: "nat \<Rightarrow> nat \<Rightarrow> byte list" where
  "le_bytes 0 n = []"
| "le_bytes (Suc w) n = word_of_nat n # le_bytes w (n div 256)"

fun le_value :: "byte list \<Rightarrow> nat" where
  "le_value [] = 0"
| "le_value (b # bs) = unat b + 256 * le_value bs"

definition uint_bytes :: "nat \<Rightarrow> bool \<Rightarrow> nat \<Rightarrow> byte list" where
  "uint_bytes w littleEndian n =
     (if littleEndian then le_bytes w n else rev (le_bytes w n))"

definition bytes_uint :: "bool \<Rightarrow> byte list \<Rightarrow> nat" where
  "bytes_uint littleEndian bs = le_value (if littleEndian then bs else rev bs)"

subsection \<open>IEEE-754 single precision\<close>

fun bitlen :: "nat \<Rightarrow> nat" where
  "bitlen n = (if n = 0 then 0 else Suc (bitlen (n div 2)))"

declare bitlen.simps [simp del]

definition roundTiesToEven :: "rat \<Rightarrow> nat" where
  "roundTiesToEven x =
     (let f = nat \<lfloor>x\<rfloor>; d = x - of_nat f
      in if d < 1 / 2 then f
         else if 1 / 2 < d then f + 1
         else if even f then f else f + 1)"

text \<open>
  The 31 low bits of the single nearest to a magnitude \<open>a \<ge> 0\<close>: \<open>k\<close> is the biased
  exponent (1 for the subnormals), the significand is \<open>a\<close> in units of the last place of
  that binade, rounded to nearest, ties to even. A carry out of the significand moves to
  the next exponent by itself; everything from \<open>2 ^ 128\<close> on is the infinity.
\<close>

definition float32_magnitude :: "rat \<Rightarrow> nat" where
  "float32_magnitude a =
     (let k = min 254 (max 1 (bitlen (nat \<lfloor>a * 2 ^ 149\<rfloor>) - 23))
      in min 0x7F800000 ((k - 1) * 2 ^ 23 + roundTiesToEven (a * 2 ^ 149 / 2 ^ (k - 1))))"

text \<open>
  The bits \<^verbatim>\<open>setFloat32\<close> stores. The platform chooses the bits of NaN; they are
  taken as the quiet NaN \<^verbatim>\<open>7FC00000\<close>.
\<close>

definition float32_bits :: "number \<Rightarrow> nat" where
  "float32_bits x =
     (case x of
        NaN \<Rightarrow> 0x7FC00000
      | PosInfinity \<Rightarrow> 0x7F800000
      | NegInfinity \<Rightarrow> 0xFF800000
      | NegZero \<Rightarrow> 0x80000000
      | Val r \<Rightarrow> if r < 0 then 0x80000000 + float32_magnitude (- r)
                 else float32_magnitude r)"

text \<open>The number \<^verbatim>\<open>getFloat32\<close> returns for 32 stored bits.\<close>

definition float32_value :: "nat \<Rightarrow> number" where
  "float32_value w =
     (let s = ((w div 2 ^ 31) mod 2 = 1); e = (w div 2 ^ 23) mod 256; m = w mod 2 ^ 23
      in if e = 255 then (if m \<noteq> 0 then NaN else if s then NegInfinity else PosInfinity)
         else if e = 0 \<and> m = 0 then (if s then NegZero else Val 0)
         else let a = of_nat (if e = 0 then m else (2 ^ 23 + m) * 2 ^ (e - 1)) / 2 ^ 149
              in Val (if s then - a else a))"

text \<open>A number is representable in single precision when some 32 bits decode to it.\<close>

definition is_float32 :: "number \<Rightarrow> bool" where
  "is_float32 x = (\<exists>w < 2 ^ 32. x = float32_value w)"

subsection \<open>DataView\<close>

text \<open>
  A DataView is a window of \<^verbatim>\<open>byteLength\<close> bytes at \<^verbatim>\<open>byteOffset\<close> of its
  ArrayBuffer: the buffer is \<open>dv_before @ dv_window @ dv_after\<close>. An accessor outside the
  window throws RangeError. Every accessor returns the view next to its completion, so
  that what a call leaves in the buffer is part of its result.
\<close>

record DataView =
  dv_before :: "byte list"
  dv_window :: "byte list"
  dv_after :: "byte list"

definition new_DataView :: "byte list \<Rightarrow> DataView" where
  "new_DataView buffer = \<lparr>dv_before = [], dv_window = buffer, dv_after = []\<rparr>"

definition new_ArrayBuffer :: "nat \<Rightarrow> byte list" where
  "new_ArrayBuffer n = replicate n 0"

definition view_buffer :: "DataView \<Rightarrow> byte list" where
  "view_buffer view = dv_before view @ dv_window view @ dv_after view"

definition byteLength :: "DataView \<Rightarrow> nat" where
  "byteLength view = length (dv_window view)"

definition getBytes :: "DataView \<Rightarrow> nat \<Rightarrow> nat \<Rightarrow> (error + byte list) \<times> DataView" where
  "getBytes view byteOffset w =
     (if byteLength view < byteOffset + w then (Inl RangeError, view)
      else (Inr (take w (drop byteOffset (dv_window view))), view))"

definition setBytes :: "DataView \<Rightarrow> nat \<Rightarrow> byte list \<Rightarrow> (error + unit) \<times> DataView" where
  "setBytes view byteOffset bs =
     (if byteLength view < byteOffset + length bs then (Inl RangeError, view)
      else (Inr (),
            view\<lparr>dv_window := take byteOffset (dv_window view) @ bs
                                @ drop (byteOffset + length bs) (dv_window view)\<rparr>))"

definition getUint :: "nat \<Rightarrow> DataView \<Rightarrow> nat \<Rightarrow> bool \<Rightarrow> (error + number) \<times> DataView" where
  "getUint w view byteOffset littleEndian =
     (case getBytes view byteOffset w of
        (Inl e, view') \<Rightarrow> (Inl e, view')
      | (Inr bs, view') \<Rightarrow> (Inr (Val (of_nat (bytes_uint littleEndian bs))), view'))"

definition setUint ::
  "nat \<Rightarrow> DataView \<Rightarrow> nat \<Rightarrow> number option \<Rightarrow> bool \<Rightarrow> (error + unit) \<times> DataView" where
  "setUint w view byteOffset v littleEndian =
     setBytes view byteOffset (uint_bytes w littleEndian (ToUint (8 * w) (ToNumber v)))"

text \<open>The one-byte accessors take no byte order; a further argument is ignored.\<close>

definition getUint8 :: "DataView \<Rightarrow> nat \<Rightarrow> (error + number) \<times> DataView" where
  "getUint8 view byteOffset = getUint 1 view byteOffset True"

definition setUint8 :: "DataView \<Rightarrow> nat \<Rightarrow> number option \<Rightarrow> (error + unit) \<times> DataView" where
  "setUint8 view byteOffset v = setUint 1 view byteOffset v True"

definition getUint16 :: "DataView \<Rightarrow> nat \<Rightarrow> bool \<Rightarrow> (error + number) \<times> DataView" where
  "getUint16 view byteOffset littleEndian = getUint 2 view byteOffset littleEndian"

definition setUint16 ::
  "DataView \<Rightarrow> nat \<Rightarrow> number option \<Rightarrow> bool \<Rightarrow> (error + unit) \<times> DataView" where
  "setUint16 view byteOffset v littleEndian = setUint 2 view byteOffset v littleEndian"

definition getUint32 :: "DataView \<Rightarrow> nat \<Rightarrow> bool \<Rightarrow> (error + number) \<times> DataView" where
  "getUint32 view byteOffset littleEndian = getUint 4 view byteOffset littleEndian"

definition setUint32 ::
  "DataView \<Rightarrow> nat \<Rightarrow> number option \<Rightarrow> bool \<Rightarrow> (error + unit) \<times> DataView" where
  "setUint32 view byteOffset v littleEndian = setUint 4 view byteOffset v littleEndian"

definition getFloat32 :: "DataView \<Rightarrow> nat \<Rightarrow> bool \<Rightarrow> (error + number) \<times> DataView" where
  "getFloat32 view byteOffset littleEndian =
     (case getBytes view byteOffset 4 of
        (Inl e, view') \<Rightarrow> (Inl e, view')
      | (Inr bs, view') \<Rightarrow> (Inr (float32_value (bytes_uint littleEndian bs)), view'))"

definition setFloat32 ::
  "DataView \<Rightarrow> nat \<Rightarrow> number option \<Rightarrow> bool \<Rightarrow> (error + unit) \<times> DataView" where
  "setFloat32 view byteOffset v littleEndian =
     setBytes view byteOffset (uint_bytes 4 littleEndian (float32_bits (ToNumber v)))"

subsection \<open>Objects and arguments\<close>

text \<open>
  \<^verbatim>\<open>StructData\<close>: an object with number-valued own properties, in insertion order
  (the platform lists integer-like names first; no statement below compares the order
  of entries under such names). Reading a property is \<open>map_of\<close>: a name the object does not have gives \<^verbatim>\<open>undefined\<close>,
  or an inherited object or function, and ToNumber makes NaN of each of them.
\<close>

type_synonym StructData = "(string \<times> number) list"

text \<open>
  Giving a property a value, by \<^verbatim>\<open>result[name] = v\<close> on an object that began as
  \<^verbatim>\<open>{}\<close> or by \<^verbatim>\<open>name: v\<close> in an object literal: \<open>AList.update\<close> keeps the place of a
  property that exists and appends a new one. The name \<^verbatim>\<open>__proto__\<close> is the accessor of
  the prototype, in both forms; it ignores a value that is no object, so a number given
  to it leaves the object as it was.
\<close>

definition set_property :: "string \<Rightarrow> number \<Rightarrow> StructData \<Rightarrow> StructData" where
  "set_property name v obj =
     (if name = ''__proto__'' then obj else AList.update name v obj)"

text \<open>The argument \<^verbatim>\<open>buffer: ArrayBuffer | DataView\<close>.\<close>

datatype BufferArg = ArrayBufferArg "byte list" | DataViewArg DataView

text \<open>
  Both builders open \<^verbatim>\<open>read\<close> with
  \<^verbatim>\<open>buffer instanceof DataView ? buffer : new DataView(buffer)\<close>,
  and \<^verbatim>\<open>write\<close> with the same test followed by
  \<^verbatim>\<open>buffer instanceof ArrayBuffer ? new DataView(buffer) : new DataView(new ArrayBuffer(structSize))\<close>.
\<close>

definition as_DataView :: "BufferArg \<Rightarrow> DataView" where
  "as_DataView buffer =
     (case buffer of DataViewArg v \<Rightarrow> v | ArrayBufferArg ab \<Rightarrow> new_DataView ab)"

definition target_DataView :: "nat \<Rightarrow> BufferArg option \<Rightarrow> DataView" where
  "target_DataView structSize buffer =
     (case buffer of
        Some (DataViewArg v) \<Rightarrow> v
      | Some (ArrayBufferArg ab) \<Rightarrow> new_DataView ab
      | None \<Rightarrow> new_DataView (new_ArrayBuffer structSize))"

datatype FieldType = Uint8 | Uint16 | Uint32 | Float32

section \<open>Version 1: \<^verbatim>\<open>BinaryStructBuilderV1\<close>, using \<^verbatim>\<open>new Function()\<close>\<close>

record V1_field =
  f1_offset :: nat
  f1_size :: nat
  f1_getter :: string
  f1_setter :: string

text \<open>
  \<^verbatim>\<open>fieldMap\<close> is a JavaScript Map: entries in insertion order, \<^verbatim>\<open>set\<close> on a key that
  exists replaces the value where it stands (\<open>AList.update\<close>).
\<close>

record V1_builder =
  b1_size :: nat
  b1_fields :: "V1_field list"
  b1_fieldMap :: "(string \<times> nat) list"
  b1_littleEndian :: bool

definition V1_new :: "bool \<Rightarrow> V1_builder" where
  "V1_new littleEndian =
     \<lparr>b1_size = 0, b1_fields = [], b1_fieldMap = [], b1_littleEndian = littleEndian\<rparr>"

definition V1_allocField :: "V1_builder \<Rightarrow> FieldType \<Rightarrow> V1_field \<times> V1_builder" where
  "V1_allocField this type =
     (let offset = b1_size this;
          (size, getter, setter) =
            (case type of
               Uint8 \<Rightarrow> (1, ''getUint8'', ''setUint8'')
             | Uint16 \<Rightarrow> (2, ''getUint16'', ''setUint16'')
             | Uint32 \<Rightarrow> (4, ''getUint32'', ''setUint32'')
             | Float32 \<Rightarrow> (4, ''getFloat32'', ''setFloat32''))
      in (\<lparr>f1_offset = offset, f1_size = size, f1_getter = getter, f1_setter = setter\<rparr>,
          this\<lparr>b1_size := b1_size this + size\<rparr>))"

definition V1_addField :: "V1_builder \<Rightarrow> string \<Rightarrow> FieldType \<Rightarrow> V1_builder" where
  "V1_addField this name type =
     (let (field, this1) = V1_allocField this type;
          this2 = this1\<lparr>b1_fields := b1_fields this1 @ [field]\<rparr>
      in this2\<lparr>b1_fieldMap :=
                 AList.update name (length (b1_fields this2) - 1) (b1_fieldMap this2)\<rparr>)"

subsection \<open>The synthesised functions\<close>

text \<open>
  \<^verbatim>\<open>build\<close> writes one property \<^verbatim>\<open>name: view.getter(offset, littleEndian)\<close> and one
  statement \<^verbatim>\<open>view.setter(offset, data.name, littleEndian);\<close> per entry of the map
  and hands the text to the Function constructor. The text of an entry is kept here as
  its parts. The constructor parses the text, in which white space around a name is no
  part of the name: a name that, trimmed, is an identifier name gives the property and
  the member access of the trimmed name. Any other name is taken as rejected with
  SyntaxError; that is what the parser does with every name of identifier characters
  and white space (a digit first, a space inside, no character at all), and a name with
  other characters is outside this model (text built to parse as something else is a
  different program). An object literal with \<^verbatim>\<open>__proto__:\<close> twice is rejected as well.
  Names are ASCII.
\<close>

definition IdentifierStart :: "char \<Rightarrow> bool" where
  "IdentifierStart c =
     (let n = (of_char c :: nat)
      in (65 \<le> n \<and> n \<le> 90) \<or> (97 \<le> n \<and> n \<le> 122) \<or> n = 95 \<or> n = 36)"

definition IdentifierPart :: "char \<Rightarrow> bool" where
  "IdentifierPart c = (IdentifierStart c \<or> (48 \<le> (of_char c :: nat) \<and> (of_char c :: nat) \<le> 57))"

definition IdentifierName :: "string \<Rightarrow> bool" where
  "IdentifierName s =
     (case s of [] \<Rightarrow> False | c # cs \<Rightarrow> IdentifierStart c \<and> list_all IdentifierPart cs)"

text \<open>Tab, line feed, vertical tab, form feed, carriage return and space.\<close>

definition WhiteSpace :: "char \<Rightarrow> bool" where
  "WhiteSpace c = (let n = (of_char c :: nat) in (9 \<le> n \<and> n \<le> 13) \<or> n = 32)"

definition trim :: "string \<Rightarrow> string" where
  "trim s = rev (dropWhile WhiteSpace (rev (dropWhile WhiteSpace s)))"

text \<open>The method a name selects on a DataView; a name that is no method is not callable.\<close>

definition view_get ::
  "string \<Rightarrow> DataView \<Rightarrow> nat \<Rightarrow> bool \<Rightarrow> (error + number) \<times> DataView" where
  "view_get getter view byteOffset littleEndian =
     (if getter = ''getUint8'' then getUint8 view byteOffset
      else if getter = ''getUint16'' then getUint16 view byteOffset littleEndian
      else if getter = ''getUint32'' then getUint32 view byteOffset littleEndian
      else if getter = ''getFloat32'' then getFloat32 view byteOffset littleEndian
      else (Inl TypeError, view))"

definition view_set ::
  "string \<Rightarrow> DataView \<Rightarrow> nat \<Rightarrow> number option \<Rightarrow> bool \<Rightarrow> (error + unit) \<times> DataView" where
  "view_set setter view byteOffset v littleEndian =
     (if setter = ''setUint8'' then setUint8 view byteOffset v
      else if setter = ''setUint16'' then setUint16 view byteOffset v littleEndian
      else if setter = ''setUint32'' then setUint32 view byteOffset v littleEndian
      else if setter = ''setFloat32'' then setFloat32 view byteOffset v littleEndian
      else (Inl TypeError, view))"

text \<open>One entry of the map as the parts of its text: name, method, offset, byte order.\<close>

type_synonym V1_entry = "string \<times> string \<times> nat \<times> bool"

text \<open>The object literal of \<^verbatim>\<open>readFn\<close>: the properties are evaluated in order.\<close>

fun V1_read_body ::
  "V1_entry list \<Rightarrow> DataView \<Rightarrow> StructData \<Rightarrow> (error + StructData) \<times> DataView" where
  "V1_read_body [] view result = (Inr result, view)"
| "V1_read_body ((name, getter, offset, littleEndian) # ps) view result =
     (case view_get getter view offset littleEndian of
        (Inl e, view') \<Rightarrow> (Inl e, view')
      | (Inr v, view') \<Rightarrow> V1_read_body ps view' (set_property name v result))"

text \<open>The statements of \<^verbatim>\<open>writeFn\<close>, in order.\<close>

fun V1_write_body ::
  "V1_entry list \<Rightarrow> DataView \<Rightarrow> StructData \<Rightarrow> (error + unit) \<times> DataView" where
  "V1_write_body [] view data = (Inr (), view)"
| "V1_write_body ((name, setter, offset, littleEndian) # ps) view data =
     (case view_set setter view offset (map_of data name) littleEndian of
        (Inl e, view') \<Rightarrow> (Inl e, view')
      | (Inr _, view') \<Rightarrow> V1_write_body ps view' data)"

type_synonym read_fn = "BufferArg \<Rightarrow> (error + StructData) \<times> DataView"
type_synonym write_fn = "StructData \<Rightarrow> BufferArg option \<Rightarrow> (error + byte list) \<times> DataView"

text \<open>The entries as the parser reads them: each name without the white space around it.\<close>

definition tokens :: "V1_entry list \<Rightarrow> V1_entry list" where
  "tokens entries = map (\<lambda>(name, rest). (trim name, rest)) entries"

definition new_Function_read :: "V1_entry list \<Rightarrow> error + read_fn" where
  "new_Function_read entries =
     (if list_all (\<lambda>(name, _). IdentifierName name) (tokens entries) \<and>
         length (filter (\<lambda>(name, _). name = ''__proto__'') (tokens entries)) \<le> 1
      then Inr (\<lambda>buffer.
             let view = as_DataView buffer
             in V1_read_body (tokens entries) view [])
      else Inl SyntaxError)"

definition new_Function_write :: "nat \<Rightarrow> V1_entry list \<Rightarrow> error + write_fn" where
  "new_Function_write structSize entries =
     (if list_all (\<lambda>(name, _). IdentifierName name) (tokens entries)
      then Inr (\<lambda>data buffer.
             let view = target_DataView structSize buffer
             in case V1_write_body (tokens entries) view data of
                  (Inl e, view') \<Rightarrow> (Inl e, view')
                | (Inr _, view') \<Rightarrow> (Inr (view_buffer view'), view'))
      else Inl SyntaxError)"

record V1_codec =
  c1_size :: nat
  c1_read :: read_fn
  c1_write :: write_fn

text \<open>
  The template's \<^verbatim>\<open>fields[index]\<close>: an index outside the array gives \<^verbatim>\<open>undefined\<close>,
  whose property read throws TypeError.
\<close>

fun V1_entries ::
  "(V1_field \<Rightarrow> string) \<Rightarrow> V1_field list \<Rightarrow> bool \<Rightarrow> (string \<times> nat) list \<Rightarrow> error + V1_entry list" where
  "V1_entries method flds littleEndian [] = Inr []"
| "V1_entries method flds littleEndian ((name, index) # es) =
     (if index < length flds
      then (case V1_entries method flds littleEndian es of
              Inl e \<Rightarrow> Inl e
            | Inr ps \<Rightarrow>
                (let field = flds ! index
                 in Inr ((name, method field, f1_offset field, littleEndian) # ps)))
      else Inl TypeError)"

definition V1_build :: "V1_builder \<Rightarrow> error + V1_codec" where
  "V1_build this =
     (let structSize = b1_size this; fields = b1_fields this;
          fieldMap = b1_fieldMap this; littleEndian = b1_littleEndian this
      in case V1_entries f1_getter fields littleEndian fieldMap of
           Inl e \<Rightarrow> Inl e
         | Inr getters \<Rightarrow>
        (case new_Function_read getters of
           Inl e \<Rightarrow> Inl e
         | Inr readFn \<Rightarrow>
        (case V1_entries f1_setter fields littleEndian fieldMap of
           Inl e \<Rightarrow> Inl e
         | Inr setters \<Rightarrow>
        (case new_Function_write structSize setters of
           Inl e \<Rightarrow> Inl e
         | Inr writeFn \<Rightarrow>
             Inr \<lparr>c1_size = structSize, c1_read = readFn, c1_write = writeFn\<rparr>))))"

section \<open>Version 2: \<^verbatim>\<open>BinaryStructBuilderV2\<close>, using regular functions\<close>

record V2_field =
  f2_name :: string
  f2_offset :: nat
  f2_size :: nat
  f2_read :: "DataView \<Rightarrow> (error + number) \<times> DataView"
  f2_write :: "DataView \<Rightarrow> number option \<Rightarrow> (error + unit) \<times> DataView"

text \<open>
  \<^verbatim>\<open>build\<close> hands the builder's \<^verbatim>\<open>fields\<close> array itself to the functions it returns,
  and \<^verbatim>\<open>addField\<close> pushes onto that array. The arrays therefore live in a store, and a
  builder holds the address of its array. \<open>next_addr\<close> is the next free address.
\<close>

record store =
  arrays :: "nat \<Rightarrow> V2_field list"
  next_addr :: nat

record V2_builder =
  b2_size :: nat
  b2_fields :: nat
  b2_littleEndian :: bool

definition V2_new :: "bool \<Rightarrow> store \<Rightarrow> V2_builder \<times> store" where
  "V2_new littleEndian s =
     (\<lparr>b2_size = 0, b2_fields = next_addr s, b2_littleEndian = littleEndian\<rparr>,
      s\<lparr>arrays := (arrays s)(next_addr s := []), next_addr := next_addr s + 1\<rparr>)"

text \<open>
  The closures read \<^verbatim>\<open>this.littleEndian\<close> when called; the property is private and
  assigned by the constructor only, so they hold its value here.
\<close>

definition V2_allocField ::
  "V2_builder \<Rightarrow> string \<Rightarrow> FieldType \<Rightarrow> store \<Rightarrow> V2_builder \<times> store" where
  "V2_allocField this name type s =
     (let offset = b2_size this; littleEndian = b2_littleEndian this;
          (size, read, write) =
            (case type of
               Uint8 \<Rightarrow>
                 (1, (\<lambda>view. getUint8 view offset),
                     (\<lambda>view v. setUint8 view offset v))
             | Uint16 \<Rightarrow>
                 (2, (\<lambda>view. getUint16 view offset littleEndian),
                     (\<lambda>view v. setUint16 view offset v littleEndian))
             | Uint32 \<Rightarrow>
                 (4, (\<lambda>view. getUint32 view offset littleEndian),
                     (\<lambda>view v. setUint32 view offset v littleEndian))
             | Float32 \<Rightarrow>
                 (4, (\<lambda>view. getFloat32 view offset littleEndian),
                     (\<lambda>view v. setFloat32 view offset v littleEndian)))
      in (this\<lparr>b2_size := b2_size this + size\<rparr>,
          s\<lparr>arrays := (arrays s)(b2_fields this := arrays s (b2_fields this) @
               [\<lparr>f2_name = name, f2_offset = offset, f2_size = size,
                 f2_read = read, f2_write = write\<rparr>])\<rparr>))"

definition V2_addField ::
  "V2_builder \<Rightarrow> string \<Rightarrow> FieldType \<Rightarrow> store \<Rightarrow> V2_builder \<times> store" where
  "V2_addField this name type s = V2_allocField this name type s"

text \<open>The loops of \<^verbatim>\<open>read\<close> and \<^verbatim>\<open>write\<close> over the array.\<close>

fun V2_read_loop ::
  "V2_field list \<Rightarrow> DataView \<Rightarrow> StructData \<Rightarrow> (error + StructData) \<times> DataView" where
  "V2_read_loop [] view result = (Inr result, view)"
| "V2_read_loop (field # flds) view result =
     (case f2_read field view of
        (Inl e, view') \<Rightarrow> (Inl e, view')
      | (Inr v, view') \<Rightarrow> V2_read_loop flds view' (set_property (f2_name field) v result))"

fun V2_write_loop ::
  "V2_field list \<Rightarrow> DataView \<Rightarrow> StructData \<Rightarrow> (error + unit) \<times> DataView" where
  "V2_write_loop [] view data = (Inr (), view)"
| "V2_write_loop (field # flds) view data =
     (case f2_write field view (map_of data (f2_name field)) of
        (Inl e, view') \<Rightarrow> (Inl e, view')
      | (Inr _, view') \<Rightarrow> V2_write_loop flds view' data)"

text \<open>
  The functions of a built struct take the store they run in: they read the array at
  the address \<^verbatim>\<open>build\<close> gave them.
\<close>

record V2_codec =
  c2_size :: nat
  c2_read :: "store \<Rightarrow> read_fn"
  c2_write :: "store \<Rightarrow> write_fn"

definition V2_build :: "V2_builder \<Rightarrow> V2_codec" where
  "V2_build this =
     (let structSize = b2_size this; fields = b2_fields this
      in \<lparr>c2_size = structSize,
          c2_read = (\<lambda>s buffer.
             let view = as_DataView buffer
             in V2_read_loop (arrays s fields) view []),
          c2_write = (\<lambda>s data buffer.
             let view = target_DataView structSize buffer
             in case V2_write_loop (arrays s fields) view data of
                  (Inl e, view') \<Rightarrow> (Inl e, view')
                | (Inr _, view') \<Rightarrow> (Inr (view_buffer view'), view'))\<rparr>)"

section \<open>Declaring a struct\<close>

text \<open>
  The benchmark declares a struct by \<^verbatim>\<open>reduce\<close> over the entries of a type table,
  calling \<^verbatim>\<open>addField\<close> on a new builder: a left fold.
\<close>

definition V1_declare :: "bool \<Rightarrow> (string \<times> FieldType) list \<Rightarrow> V1_builder" where
  "V1_declare littleEndian decls =
     foldl (\<lambda>b (name, type). V1_addField b name type) (V1_new littleEndian) decls"

definition V2_declare ::
  "bool \<Rightarrow> (string \<times> FieldType) list \<Rightarrow> store \<Rightarrow> V2_builder \<times> store" where
  "V2_declare littleEndian decls s =
     foldl (\<lambda>(b, s) (name, type). V2_addField b name type s) (V2_new littleEndian s) decls"

text \<open>The declared struct: \<^verbatim>\<open>reduce(...).build()\<close>, as for \<^verbatim>\<open>structV1\<close> and \<^verbatim>\<open>structV2\<close>.\<close>

definition V1_struct :: "bool \<Rightarrow> (string \<times> FieldType) list \<Rightarrow> error + V1_codec" where
  "V1_struct littleEndian decls = V1_build (V1_declare littleEndian decls)"

definition V2_struct ::
  "bool \<Rightarrow> (string \<times> FieldType) list \<Rightarrow> store \<Rightarrow> V2_codec \<times> store" where
  "V2_struct littleEndian decls s =
     (let (b, s') = V2_declare littleEndian decls s in (V2_build b, s'))"

definition ComplexStruct :: "(string \<times> FieldType) list" where
  "ComplexStruct =
     [(''id'', Uint32), (''x'', Float32), (''y'', Float32), (''z'', Float32),
      (''flags'', Uint16), (''type'', Uint8), (''reserved'', Uint8)]"

text \<open>
  \<^verbatim>\<open>structV1\<close> and \<^verbatim>\<open>structV2\<close> of the benchmark, little-endian by default; the second
  is built in the empty store and runs in the store its builder leaves.
\<close>

definition store0 :: store where
  "store0 = \<lparr>arrays = (\<lambda>_. []), next_addr = 0\<rparr>"

definition structV1 :: V1_codec where
  "structV1 = projr (V1_struct True ComplexStruct)"

definition structV2 :: V2_codec where
  "structV2 = fst (V2_struct True ComplexStruct store0)"

definition storeV2 :: store where
  "storeV2 = snd (V2_struct True ComplexStruct store0)"

text \<open>The benchmark's record; \<^verbatim>\<open>flags\<close> is \<^verbatim>\<open>0b1010101010101010\<close>, that is 43690.\<close>

definition data :: StructData where
  "data =
     [(''id'', Val 1234), (''x'', Val 1.5), (''y'', Val 2.5), (''z'', Val 3.5),
      (''flags'', Val 43690), (''type'', Val 255), (''reserved'', Val 0)]"

section \<open>Auxiliary definitions\<close>

text \<open>The widths of the scalar types, as the specification lists them.\<close>

definition width :: "FieldType \<Rightarrow> nat" where
  "width type = (case type of Uint8 \<Rightarrow> 1 | Uint16 \<Rightarrow> 2 | Uint32 \<Rightarrow> 4 | Float32 \<Rightarrow> 4)"

text \<open>
  The layout a list of declarations denotes: every field with its type and the offset
  the builders give it. Both builders are related to it below, and the loops of their
  functions to two loops over it.
\<close>

definition totalSize :: "(string \<times> FieldType) list \<Rightarrow> nat" where
  "totalSize decls = sum_list (map (\<lambda>(name, type). width type) decls)"

fun layout :: "nat \<Rightarrow> (string \<times> FieldType) list \<Rightarrow> (string \<times> FieldType \<times> nat) list" where
  "layout off [] = []"
| "layout off ((name, type) # ds) = (name, type, off) # layout (off + width type) ds"

definition read_field ::
  "bool \<Rightarrow> FieldType \<Rightarrow> nat \<Rightarrow> DataView \<Rightarrow> (error + number) \<times> DataView" where
  "read_field littleEndian type off view =
     (case type of
        Uint8 \<Rightarrow> getUint8 view off
      | Uint16 \<Rightarrow> getUint16 view off littleEndian
      | Uint32 \<Rightarrow> getUint32 view off littleEndian
      | Float32 \<Rightarrow> getFloat32 view off littleEndian)"

definition write_field ::
  "bool \<Rightarrow> FieldType \<Rightarrow> nat \<Rightarrow> DataView \<Rightarrow> number option \<Rightarrow> (error + unit) \<times> DataView" where
  "write_field littleEndian type off view v =
     (case type of
        Uint8 \<Rightarrow> setUint8 view off v
      | Uint16 \<Rightarrow> setUint16 view off v littleEndian
      | Uint32 \<Rightarrow> setUint32 view off v littleEndian
      | Float32 \<Rightarrow> setFloat32 view off v littleEndian)"

fun read_all ::
  "bool \<Rightarrow> (string \<times> FieldType \<times> nat) list \<Rightarrow> DataView \<Rightarrow> StructData
     \<Rightarrow> (error + StructData) \<times> DataView" where
  "read_all le [] view result = (Inr result, view)"
| "read_all le ((name, type, off) # fs) view result =
     (case read_field le type off view of
        (Inl e, view') \<Rightarrow> (Inl e, view')
      | (Inr v, view') \<Rightarrow> read_all le fs view' (set_property name v result))"

fun write_all ::
  "bool \<Rightarrow> (string \<times> FieldType \<times> nat) list \<Rightarrow> DataView \<Rightarrow> StructData
     \<Rightarrow> (error + unit) \<times> DataView" where
  "write_all le [] view d = (Inr (), view)"
| "write_all le ((name, type, off) # fs) view d =
     (case write_field le type off view (map_of d name) of
        (Inl e, view') \<Rightarrow> (Inl e, view')
      | (Inr _, view') \<Rightarrow> write_all le fs view' d)"

text \<open>The bytes a field holds after a value is written to it, and the value read from them.\<close>

definition encode_field :: "bool \<Rightarrow> FieldType \<Rightarrow> number option \<Rightarrow> byte list" where
  "encode_field le type v =
     (case type of
        Float32 \<Rightarrow> uint_bytes 4 le (float32_bits (ToNumber v))
      | _ \<Rightarrow> uint_bytes (width type) le (ToUint (8 * width type) (ToNumber v)))"

definition decode_field :: "bool \<Rightarrow> FieldType \<Rightarrow> byte list \<Rightarrow> number" where
  "decode_field le type bs =
     (case type of
        Float32 \<Rightarrow> float32_value (bytes_uint le bs)
      | _ \<Rightarrow> Val (of_nat (bytes_uint le bs)))"

definition encode_all :: "bool \<Rightarrow> StructData \<Rightarrow> (string \<times> FieldType) list \<Rightarrow> byte list" where
  "encode_all le d decls = concat (map (\<lambda>(name, type). encode_field le type (map_of d name)) decls)"

text \<open>The fields and entries the two builders make of a layout.\<close>

definition getter_name :: "FieldType \<Rightarrow> string" where
  "getter_name type =
     (case type of Uint8 \<Rightarrow> ''getUint8'' | Uint16 \<Rightarrow> ''getUint16''
      | Uint32 \<Rightarrow> ''getUint32'' | Float32 \<Rightarrow> ''getFloat32'')"

definition setter_name :: "FieldType \<Rightarrow> string" where
  "setter_name type =
     (case type of Uint8 \<Rightarrow> ''setUint8'' | Uint16 \<Rightarrow> ''setUint16''
      | Uint32 \<Rightarrow> ''setUint32'' | Float32 \<Rightarrow> ''setFloat32'')"

definition V1_mk :: "string \<times> FieldType \<times> nat \<Rightarrow> V1_field" where
  "V1_mk f =
     (case f of (name, type, off) \<Rightarrow>
        \<lparr>f1_offset = off, f1_size = width type,
         f1_getter = getter_name type, f1_setter = setter_name type\<rparr>)"

definition V2_mk :: "bool \<Rightarrow> string \<times> FieldType \<times> nat \<Rightarrow> V2_field" where
  "V2_mk le f =
     (case f of (name, type, off) \<Rightarrow>
        \<lparr>f2_name = name, f2_offset = off, f2_size = width type,
         f2_read = read_field le type off, f2_write = write_field le type off\<rparr>)"

text \<open>
  What the functions of a struct do, on a layout: \<^verbatim>\<open>read\<close> and \<^verbatim>\<open>write\<close> of both
  versions are shown equal to these.
\<close>

definition codec_read :: "bool \<Rightarrow> (string \<times> FieldType \<times> nat) list \<Rightarrow> read_fn" where
  "codec_read le L buffer = read_all le L (as_DataView buffer) []"

definition codec_write :: "bool \<Rightarrow> nat \<Rightarrow> (string \<times> FieldType \<times> nat) list \<Rightarrow> write_fn" where
  "codec_write le structSize L d buffer =
     (case write_all le L (target_DataView structSize buffer) d of
        (Inl e, view') \<Rightarrow> (Inl e, view')
      | (Inr _, view') \<Rightarrow> (Inr (view_buffer view'), view'))"

text \<open>
  The layout version 1 works on: the names of its map, each with the type and offset
  of the field at the index the map gives.
\<close>

definition V1_layout :: "bool \<Rightarrow> (string \<times> FieldType) list \<Rightarrow> (string \<times> FieldType \<times> nat) list" where
  "V1_layout le ds =
     map (\<lambda>(n, i). (n, snd (layout 0 ds ! i))) (b1_fieldMap (V1_declare le ds))"

text \<open>The same under the names the synthesised text gives them.\<close>

definition keyed :: "(string \<times> FieldType \<times> nat) list \<Rightarrow> (string \<times> FieldType \<times> nat) list" where
  "keyed L = map (\<lambda>(n, t, off). (trim n, t, off)) L"

text \<open>The names for which the text of version 1 parses.\<close>

definition parses :: "string list \<Rightarrow> bool" where
  "parses names =
     (list_all (\<lambda>n. IdentifierName (trim n)) names \<and>
      length (filter (\<lambda>n. trim n = ''__proto__'') names) \<le> 1)"

text \<open>The finite magnitude 31 bits stand for, in units of \<open>2 ^ - 149\<close>.\<close>

definition float32_scaled :: "nat \<Rightarrow> nat" where
  "float32_scaled w = (if w div 2 ^ 23 = 0 then w mod 2 ^ 23 else (2 ^ 23 + w mod 2 ^ 23) * 2 ^ (w div 2 ^ 23 - 1))"

text \<open>The values a field holds exactly: see the round trip below.\<close>

definition exact_for :: "FieldType \<Rightarrow> number \<Rightarrow> bool" where
  "exact_for type x =
     (case type of
        Float32 \<Rightarrow> is_float32 x
      | _ \<Rightarrow> (\<exists>k < 2 ^ (8 * width type). x = Val (of_nat k)))"

section \<open>Bytes and single precision\<close>

lemma length_le_bytes [simp]: "length (le_bytes w n) = w"
  by (induction w arbitrary: n) auto

lemma le_value_le_bytes: "le_value (le_bytes w n) = n mod 256 ^ w"
proof (induction w arbitrary: n)
  case 0
  show ?case by simp
next
  case (Suc w)
  have "unat (word_of_nat n :: byte) = n mod 256"
    by (simp add: unat_of_nat)
  with Suc show ?case
    by (simp add: mod_mult2_eq)
qed

lemma length_uint_bytes [simp]: "length (uint_bytes w le n) = w"
  by (simp add: uint_bytes_def)

lemma bytes_uint_uint_bytes: "bytes_uint le (uint_bytes w le n) = n mod 256 ^ w"
  by (simp add: uint_bytes_def bytes_uint_def le_value_le_bytes)

lemma bitlen_0 [simp]: "bitlen 0 = 0"
  by (simp add: bitlen.simps)

lemma bitlen_eq: "2 ^ k \<le> n \<Longrightarrow> n < 2 ^ Suc k \<Longrightarrow> bitlen n = Suc k"
proof (induction k arbitrary: n)
  case 0
  then have "n = 1" by simp
  then show ?case by (simp add: bitlen.simps [of "Suc 0"])
next
  case (Suc k)
  from Suc.prems have "2 ^ k \<le> n div 2" "n div 2 < 2 ^ Suc k" "n \<noteq> 0"
    by auto
  with Suc.IH [of "n div 2"] show ?case
    by (simp add: bitlen.simps [of n])
qed

lemma bitlen_le: "n < 2 ^ k \<Longrightarrow> bitlen n \<le> k"
proof (induction k arbitrary: n)
  case 0
  then show ?case by simp
next
  case (Suc k)
  then have "n div 2 < 2 ^ k" by auto
  with Suc.IH [of "n div 2"] show ?case
    by (simp add: bitlen.simps [of n])
qed

lemma roundTiesToEven_of_nat [simp]: "roundTiesToEven (of_nat n) = n"
  by (simp add: roundTiesToEven_def)

lemma roundTiesToEven_0 [simp]: "roundTiesToEven 0 = 0"
  using roundTiesToEven_of_nat [of 0] by simp

lemma float32_magnitude_scaled:
  "float32_magnitude (of_nat N / 2 ^ 149) =
     min 0x7F800000 ((min 254 (max 1 (bitlen N - 23)) - 1) * 2 ^ 23 +
       roundTiesToEven (of_nat N / 2 ^ (min 254 (max 1 (bitlen N - 23)) - 1)))"
  by (simp add: float32_magnitude_def Let_def)

lemma float32_magnitude_exact:
  assumes "w < 0x7F800000"
  shows "float32_magnitude (of_nat (float32_scaled w) / 2 ^ 149) = w"
proof -
  define e where "e = w div 2 ^ 23"
  define m where "m = w mod 2 ^ 23"
  have w: "w = e * 2 ^ 23 + m" and m: "m < 2 ^ 23"
    by (simp_all add: e_def m_def)
  from assms have e: "e < 255"
    by (simp add: e_def less_mult_imp_div_less)
  show ?thesis
  proof (cases "e = 0")
    case True
    then have N: "float32_scaled w = m"
      by (simp add: float32_scaled_def e_def m_def)
    from m have "bitlen m \<le> 23"
      by (rule bitlen_le)
    then have k: "min 254 (max 1 (bitlen m - 23)) = (1::nat)" by simp
    have "min 2139095040 m = m" using m by simp
    then show ?thesis
      unfolding N float32_magnitude_scaled k using True w by simp
  next
    case False
    then obtain e' where e': "e = Suc e'" by (cases e) auto
    have N: "float32_scaled w = (2 ^ 23 + m) * 2 ^ e'"
      using False e' by (simp add: float32_scaled_def e_def m_def)
    have lo: "2 ^ (23 + e') \<le> (2 ^ 23 + m) * (2::nat) ^ e'"
      by (simp add: power_add)
    have "(2 ^ 23 + m) * (2::nat) ^ e' < 2 ^ 24 * 2 ^ e'"
      using m by (intro mult_strict_right_mono) auto
    then have hi: "(2 ^ 23 + m) * (2::nat) ^ e' < 2 ^ Suc (23 + e')"
      by (simp add: power_add)
    from bitlen_eq [OF lo hi] have bl: "bitlen ((2 ^ 23 + m) * 2 ^ e') = Suc (23 + e')" .
    have k: "min 254 (max 1 (Suc (23 + e') - 23)) = Suc e'"
      using e e' by simp
    have "(of_nat ((2 ^ 23 + m) * 2 ^ e') / 2 ^ e' :: rat) = of_nat (2 ^ 23 + m)"
      by simp
    then have r: "roundTiesToEven (of_nat ((2 ^ 23 + m) * 2 ^ e') / 2 ^ (Suc e' - 1)) = 2 ^ 23 + m"
      by (simp only: roundTiesToEven_of_nat diff_Suc_1)
    have "(Suc e' - 1) * 2 ^ 23 + (2 ^ 23 + m) = w"
      using w e' by simp
    moreover have "min 2139095040 w = w" using assms by simp
    ultimately show ?thesis
      unfolding N float32_magnitude_scaled bl k r by simp
  qed
qed


lemma float32_scaled_pos: "0 < w \<Longrightarrow> 0 < float32_scaled w"
  by (auto simp: float32_scaled_def)

lemma float32_value_split:
  "float32_value w =
     (if (w mod 2 ^ 31) div 2 ^ 23 = 255
      then (if (w mod 2 ^ 31) mod 2 ^ 23 \<noteq> 0 then NaN
            else if (w div 2 ^ 31) mod 2 = 1 then NegInfinity else PosInfinity)
      else if w mod 2 ^ 31 = 0 then (if (w div 2 ^ 31) mod 2 = 1 then NegZero else Val 0)
      else Val (if (w div 2 ^ 31) mod 2 = 1
                then - (of_nat (float32_scaled (w mod 2 ^ 31)) / 2 ^ 149)
                else of_nat (float32_scaled (w mod 2 ^ 31)) / 2 ^ 149))"
proof -
  have e: "(w div 2 ^ 23) mod 256 = (w mod 2 ^ 31) div 2 ^ 23"
  proof -
    have "(w mod 2 ^ 31) div 2 ^ 23 = (w mod (2 ^ 23 * 2 ^ 8)) div 2 ^ 23"
      by simp
    also have "\<dots> = (w div 2 ^ 23) mod 2 ^ 8"
      by (simp only: mod_mult2_eq) simp
    finally show ?thesis by simp
  qed
  have m: "w mod 2 ^ 23 = (w mod 2 ^ 31) mod 2 ^ 23"
    by (simp add: mod_mod_cancel)
  have z: "(w mod 2 ^ 31) div 2 ^ 23 = 0 \<and> (w mod 2 ^ 31) mod 2 ^ 23 = 0 \<longleftrightarrow> w mod 2 ^ 31 = 0"
    by (metis div_mult_mod_eq mult_zero_left add_0 div_0 mod_0)
  show ?thesis
    unfolding float32_value_def Let_def e m float32_scaled_def using z by auto
qed


lemma float32_bits_value:
  assumes w: "w < 2 ^ 32"
    and nan: "\<not> ((w mod 2 ^ 31) div 2 ^ 23 = 255 \<and> (w mod 2 ^ 31) mod 2 ^ 23 \<noteq> 0)"
  shows "float32_bits (float32_value w) = w"
proof -
  define s where "s = w div 2 ^ 31"
  define u where "u = w mod 2 ^ 31"
  have wsu: "w = s * 2 ^ 31 + u" and u: "u < 2 ^ 31"
    by (simp_all add: s_def u_def)
  have "w div 2 ^ 31 < 2"
    using w by (intro less_mult_imp_div_less) simp
  then have s: "s = 0 \<or> s = 1"
    unfolding s_def by arith
  have s2: "s mod 2 = 1 \<longleftrightarrow> s = 1"
    using s by auto
  note split = float32_value_split [of w, folded s_def u_def]
  show ?thesis
  proof (cases "u div 2 ^ 23 = 255")
    case True
    with nan have "u mod 2 ^ 23 = 0" by (simp add: u_def)
    with True have "u = 255 * 2 ^ 23"
      using div_mult_mod_eq [of u "2 ^ 23"] by simp
    then show ?thesis
      using s True split s2 wsu by (auto simp: float32_bits_def)
  next
    case False
    have "u div 2 ^ 23 < 256"
      using u by (intro less_mult_imp_div_less) simp
    with False have "u div 2 ^ 23 < 255" by simp
    then have fin: "u < 0x7F800000"
      by (simp add: div_less_iff_less_mult)
    show ?thesis
    proof (cases "u = 0")
      case True
      then show ?thesis
        using s split s2 wsu False by (auto simp: float32_bits_def float32_magnitude_def)
    next
      case nz: False
      then have pos: "(0::rat) < of_nat (float32_scaled u) / 2 ^ 149"
        using float32_scaled_pos [of u] by simp
      from s show ?thesis
      proof
        assume "s = 0"
        then have "float32_value w = Val (of_nat (float32_scaled u) / 2 ^ 149)"
          using split False nz by simp
        then show ?thesis
          using pos float32_magnitude_exact [OF fin] wsu \<open>s = 0\<close>
          by (simp add: float32_bits_def)
      next
        assume "s = 1"
        then have "float32_value w = Val (- (of_nat (float32_scaled u) / 2 ^ 149))"
          using split False nz by simp
        then show ?thesis
          using pos float32_magnitude_exact [OF fin] wsu \<open>s = 1\<close>
          by (simp add: float32_bits_def)
      qed
    qed
  qed
qed

lemma float32_roundtrip:
  assumes "is_float32 x"
  shows "float32_value (float32_bits x) = x"
proof -
  from assms obtain w where w: "w < 2 ^ 32" and x: "x = float32_value w"
    by (auto simp: is_float32_def)
  show ?thesis
  proof (cases "(w mod 2 ^ 31) div 2 ^ 23 = 255 \<and> (w mod 2 ^ 31) mod 2 ^ 23 \<noteq> 0")
    case True
    then have "x = NaN"
      by (simp add: x float32_value_split)
    then show ?thesis
      by (simp add: float32_bits_def float32_value_def)
  next
    case False
    with w have "float32_bits (float32_value w) = w"
      by (rule float32_bits_value)
    then show ?thesis by (simp add: x)
  qed
qed

lemma float32_bits_less: "float32_bits x < 2 ^ 32"
proof -
  have m: "float32_magnitude a \<le> 0x7F800000" for a
    by (simp add: float32_magnitude_def Let_def)
  show ?thesis
  proof (cases x)
    case (Val r)
    then show ?thesis using m [of r] m [of "- r"]
      by (simp add: float32_bits_def)
  qed (simp_all add: float32_bits_def)
qed


section \<open>Accessors and loops on a layout\<close>

lemma length_encode_field [simp]: "length (encode_field le t v) = width t"
  by (cases t) (simp_all add: encode_field_def width_def)


lemma rev_take_1 [simp]: "rev (take (Suc 0) xs) = take (Suc 0) xs"
  by (cases xs) simp_all


lemma read_field_ok:
  "off + width t \<le> byteLength view \<Longrightarrow>
   read_field le t off view =
     (Inr (decode_field le t (take (width t) (drop off (dv_window view)))), view)"
  by (cases t)
    (simp_all add: read_field_def width_def getUint8_def getUint16_def getUint32_def
      getFloat32_def getUint_def getBytes_def decode_field_def bytes_uint_def)


lemma write_field_setBytes:
  "write_field le t off view v = setBytes view off (encode_field le t v)"
  by (cases t)
    (simp_all add: write_field_def encode_field_def width_def setUint8_def setUint16_def
      setUint32_def setFloat32_def setUint_def uint_bytes_def)





lemma write_all_layout:
  "off + totalSize ds \<le> byteLength view \<Longrightarrow>
   write_all le (layout off ds) view d =
     (Inr (), view\<lparr>dv_window := take off (dv_window view) @ encode_all le d ds @
        drop (off + totalSize ds) (dv_window view)\<rparr>)"
proof (induction ds arbitrary: off view)
  case Nil
  show ?case by (simp add: encode_all_def totalSize_def)
next
  case (Cons f ds)
  obtain n t where f: "f = (n, t)" by (cases f)
  define view1 where "view1 = view\<lparr>dv_window := take off (dv_window view) @
    encode_field le t (map_of d n) @ drop (off + width t) (dv_window view)\<rparr>"
  from Cons.prems have r: "off + width t + totalSize ds \<le> byteLength view"
    by (simp add: f totalSize_def)
  then have w: "write_field le t off view (map_of d n) = (Inr (), view1)"
    by (simp add: write_field_setBytes setBytes_def view1_def)
  have len: "byteLength view1 = byteLength view"
    using r by (simp add: view1_def byteLength_def)
  with r have "off + width t + totalSize ds \<le> byteLength view1" by simp
  from Cons.IH [OF this] have
    "write_all le (layout (off + width t) ds) view1 d =
      (Inr (), view1\<lparr>dv_window := take (off + width t) (dv_window view1) @ encode_all le d ds @
         drop (off + width t + totalSize ds) (dv_window view1)\<rparr>)" .
  moreover have "take (off + width t) (dv_window view1) =
      take off (dv_window view) @ encode_field le t (map_of d n)"
    using r by (simp add: view1_def byteLength_def)
  moreover have "drop (off + width t + totalSize ds) (dv_window view1) =
      drop (off + width t + totalSize ds) (dv_window view)"
    using r by (simp add: view1_def byteLength_def ac_simps)
  ultimately show ?case
    using w by (simp add: f view1_def encode_all_def totalSize_def add.assoc)
qed


lemma update_append: "k \<notin> fst ` set al \<Longrightarrow> AList.update k v al = al @ [(k, v)]"
  by (induction al) auto

lemma set_update_subset: "x \<in> set (AList.update k v al) \<Longrightarrow> x = (k, v) \<or> x \<in> set al"
  by (induction al) (auto split: if_splits)


lemma set_property_append:
  "k \<noteq> ''__proto__'' \<Longrightarrow> k \<notin> fst ` set al \<Longrightarrow> set_property k v al = al @ [(k, v)]"
  by (simp add: set_property_def update_append)

lemma read_all_layout:
  assumes "dv_window view = pre @ encode_all le d ds @ post" and "length pre = off"
    and "distinct (map fst ds)" and "fst ` set r \<inter> fst ` set ds = {}"
    and "''__proto__'' \<notin> fst ` set ds"
  shows "read_all le (layout off ds) view r =
    (Inr (r @ map (\<lambda>(n, t). (n, decode_field le t (encode_field le t (map_of d n)))) ds), view)"
  using assms
proof (induction ds arbitrary: pre off r)
  case Nil
  show ?case by simp
next
  case (Cons f ds)
  obtain n t where f: "f = (n, t)" by (cases f)
  let ?enc = "encode_field le t (map_of d n)"
  have win: "dv_window view = (pre @ ?enc) @ encode_all le d ds @ post"
    using Cons.prems(1) by (simp add: f encode_all_def)
  have "off + width t \<le> byteLength view"
    using Cons.prems(2) by (simp add: byteLength_def win)
  moreover have "take (width t) (drop off (dv_window view)) = ?enc"
    using Cons.prems(2) by (simp add: win)
  ultimately have rd: "read_field le t off view = (Inr (decode_field le t ?enc), view)"
    by (simp add: read_field_ok)
  have "n \<noteq> ''__proto__''"
    using Cons.prems(5) by (auto simp: f)
  moreover have "n \<notin> fst ` set r"
    using Cons.prems(4) by (auto simp: f)
  ultimately have upd:
    "set_property n (decode_field le t ?enc) r = r @ [(n, decode_field le t ?enc)]"
    by (rule set_property_append)
  have "read_all le (layout (off + width t) ds) view (r @ [(n, decode_field le t ?enc)]) =
    (Inr ((r @ [(n, decode_field le t ?enc)]) @
       map (\<lambda>(n, t). (n, decode_field le t (encode_field le t (map_of d n)))) ds), view)"
  proof (rule Cons.IH [OF win])
    show "length (pre @ ?enc) = off + width t"
      using Cons.prems(2) by simp
    show "distinct (map fst ds)"
      using Cons.prems(3) by simp
    show "fst ` set (r @ [(n, decode_field le t ?enc)]) \<inter> fst ` set ds = {}"
      using Cons.prems(3,4) by (auto simp: f)
    show "''__proto__'' \<notin> fst ` set ds"
      using Cons.prems(5) by simp
  qed
  then show ?case
    by (simp add: f rd upd)
qed

lemma ToUint_of_nat: "ToUint bits (Val (of_nat k)) = k mod 2 ^ bits"
proof -
  have "nat (int k mod 2 ^ bits) = k mod 2 ^ bits"
    by (metis nat_int of_nat_mod of_nat_numeral of_nat_power)
  then show ?thesis
    by (simp add: ToUint_def)
qed

lemma roundtrip_uint:
  assumes "k < 2 ^ (8 * w)"
  shows "bytes_uint le (uint_bytes w le (ToUint (8 * w) (Val (of_nat k)))) = k"
proof -
  have "(256::nat) ^ w = 2 ^ (8 * w)"
    by (simp add: power_mult)
  with assms show ?thesis
    by (simp add: ToUint_of_nat bytes_uint_uint_bytes)
qed

lemma roundtrip_field:
  assumes "exact_for t x"
  shows "decode_field le t (encode_field le t (Some x)) = x"
proof (cases t)
  case Float32
  with assms have "is_float32 x" by (simp add: exact_for_def)
  then have "float32_value (float32_bits x) = x" by (rule float32_roundtrip)
  moreover have "float32_bits x mod 256 ^ 4 = float32_bits x"
    using float32_bits_less [of x] by simp
  ultimately show ?thesis
    by (simp add: Float32 decode_field_def encode_field_def ToNumber_def bytes_uint_uint_bytes)
next
  case Uint8
  with assms obtain k where "k < 2 ^ (8 * 1)" "x = Val (of_nat k)"
    by (auto simp: exact_for_def width_def)
  with roundtrip_uint [of k 1 le] show ?thesis
    by (simp add: Uint8 decode_field_def encode_field_def ToNumber_def width_def)
next
  case Uint16
  with assms obtain k where "k < 2 ^ (8 * 2)" "x = Val (of_nat k)"
    by (auto simp: exact_for_def width_def)
  with roundtrip_uint [of k 2 le] show ?thesis
    by (simp add: Uint16 decode_field_def encode_field_def ToNumber_def width_def)
next
  case Uint32
  with assms obtain k where "k < 2 ^ (8 * 4)" "x = Val (of_nat k)"
    by (auto simp: exact_for_def width_def)
  with roundtrip_uint [of k 4 le] show ?thesis
    by (simp add: Uint32 decode_field_def encode_field_def ToNumber_def width_def)
qed


lemma totalSize_simps [simp]:
  "totalSize [] = 0"
  "totalSize ((n, t) # ds) = width t + totalSize ds"
  "totalSize (xs @ ys) = totalSize xs + totalSize ys"
  by (simp_all add: totalSize_def)

lemma layout_append:
  "layout off (xs @ ys) = layout off xs @ layout (off + totalSize xs) ys"
  by (induction xs arbitrary: off) (auto simp: add.assoc)

lemma length_layout [simp]: "length (layout off ds) = length ds"
  by (induction ds arbitrary: off) auto


lemma V1_addField_eq:
  "V1_addField b n t =
     b\<lparr>b1_size := b1_size b + width t,
       b1_fields := b1_fields b @ [V1_mk (n, t, b1_size b)],
       b1_fieldMap := AList.update n (length (b1_fields b)) (b1_fieldMap b)\<rparr>"
  by (cases t)
    (simp_all add: V1_addField_def V1_allocField_def V1_mk_def width_def getter_name_def
      setter_name_def)

lemma V1_declare_Nil: "V1_declare le [] = V1_new le"
  by (simp add: V1_declare_def)

lemma V1_declare_snoc: "V1_declare le (ds @ [(n, t)]) = V1_addField (V1_declare le ds) n t"
  by (simp add: V1_declare_def)

lemma V1_declare_fields:
  "b1_size (V1_declare le ds) = totalSize ds \<and>
   b1_fields (V1_declare le ds) = map V1_mk (layout 0 ds) \<and>
   b1_littleEndian (V1_declare le ds) = le"
proof (induction ds rule: rev_induct)
  case Nil
  show ?case by (simp add: V1_declare_Nil V1_new_def)
next
  case (snoc d ds)
  obtain n t where d: "d = (n, t)" by (cases d)
  from snoc show ?case
    by (simp add: d V1_declare_snoc V1_addField_eq layout_append)
qed

lemma V1_declare_fieldMap_bound:
  "(n, i) \<in> set (b1_fieldMap (V1_declare le ds)) \<Longrightarrow> i < length ds"
proof (induction ds arbitrary: n i rule: rev_induct)
  case Nil
  then show ?case by (simp add: V1_declare_Nil V1_new_def)
next
  case (snoc d ds)
  obtain n' t where d: "d = (n', t)" by (cases d)
  from snoc.prems have
    "(n, i) \<in> set (AList.update n' (length ds) (b1_fieldMap (V1_declare le ds)))"
    by (simp add: d V1_declare_snoc V1_addField_eq V1_declare_fields)
  then have "(n, i) = (n', length ds) \<or> (n, i) \<in> set (b1_fieldMap (V1_declare le ds))"
    by (rule set_update_subset)
  with snoc.IH [of n i] show ?case by auto
qed


lemma V1_declare_fieldMap_distinct:
  "distinct (map fst ds) \<Longrightarrow>
   b1_fieldMap (V1_declare le ds) = zip (map fst ds) [0..<length ds]"
proof (induction ds rule: rev_induct)
  case Nil
  show ?case by (simp add: V1_declare_Nil V1_new_def)
next
  case (snoc d ds)
  obtain n t where d: "d = (n, t)" by (cases d)
  from snoc.prems have dist: "distinct (map fst ds)" and new: "n \<notin> fst ` set ds"
    by (simp_all add: d)
  from snoc.IH [OF dist] have fm: "b1_fieldMap (V1_declare le ds) = zip (map fst ds) [0..<length ds]" .
  have "n \<notin> fst ` set (zip (map fst ds) [0..<length ds])"
    using new by (auto dest!: set_zip_leftD)
  then show ?case
    by (simp add: d V1_declare_snoc V1_addField_eq V1_declare_fields fm update_append)
qed

lemma read_field_closure:
  "read_field le t off =
     (case t of
        Uint8 \<Rightarrow> (\<lambda>view. getUint8 view off)
      | Uint16 \<Rightarrow> (\<lambda>view. getUint16 view off le)
      | Uint32 \<Rightarrow> (\<lambda>view. getUint32 view off le)
      | Float32 \<Rightarrow> (\<lambda>view. getFloat32 view off le))"
  by (rule ext) (simp add: read_field_def split: FieldType.splits)

lemma write_field_closure:
  "write_field le t off =
     (case t of
        Uint8 \<Rightarrow> (\<lambda>view v. setUint8 view off v)
      | Uint16 \<Rightarrow> (\<lambda>view v. setUint16 view off v le)
      | Uint32 \<Rightarrow> (\<lambda>view v. setUint32 view off v le)
      | Float32 \<Rightarrow> (\<lambda>view v. setFloat32 view off v le))"
  by (rule ext, rule ext) (simp add: write_field_def split: FieldType.splits)

lemma V2_addField_eq:
  "V2_addField b n t s =
     (b\<lparr>b2_size := b2_size b + width t\<rparr>,
      s\<lparr>arrays := (arrays s)(b2_fields b := arrays s (b2_fields b) @
           [V2_mk (b2_littleEndian b) (n, t, b2_size b)])\<rparr>)"
  by (cases t)
    (simp_all add: V2_addField_def V2_allocField_def V2_mk_def width_def Let_def
      read_field_closure write_field_closure)

lemma V2_declare_snoc:
  "V2_declare le (ds @ [(n, t)]) s =
     V2_addField (fst (V2_declare le ds s)) n t (snd (V2_declare le ds s))"
  by (simp add: V2_declare_def case_prod_beta)

lemma V2_declare_eq:
  "fst (V2_declare le ds s) =
     \<lparr>b2_size = totalSize ds, b2_fields = next_addr s, b2_littleEndian = le\<rparr> \<and>
   arrays (snd (V2_declare le ds s)) (next_addr s) = map (V2_mk le) (layout 0 ds)"
proof (induction ds rule: rev_induct)
  case Nil
  show ?case by (simp add: V2_declare_def V2_new_def)
next
  case (snoc d ds)
  obtain n t where d: "d = (n, t)" by (cases d)
  from snoc.IH show ?case
    by (simp add: d V2_declare_snoc V2_addField_eq layout_append)
qed


section \<open>The two builders on a layout\<close>

lemma V2_read_loop_mk: "V2_read_loop (map (V2_mk le) L) view r = read_all le L view r"
  by (induction L arbitrary: view r) (auto simp: V2_mk_def split: prod.splits sum.splits)

lemma V2_write_loop_mk: "V2_write_loop (map (V2_mk le) L) view d = write_all le L view d"
  by (induction L arbitrary: view) (auto simp: V2_mk_def split: prod.splits sum.splits)

lemma V2_struct_eq:
  "fst (V2_struct le ds s) = V2_build (fst (V2_declare le ds s))"
  "snd (V2_struct le ds s) = snd (V2_declare le ds s)"
  by (simp_all add: V2_struct_def case_prod_beta)

lemma V2_struct_codec:
  assumes "V2_struct le ds s = (c, s')"
  shows "c2_size c = totalSize ds"
    and "c2_read c s' = codec_read le (layout 0 ds)"
    and "c2_write c s' = codec_write le (totalSize ds) (layout 0 ds)"
proof -
  from assms have c: "c = V2_build (fst (V2_declare le ds s))"
    and s': "s' = snd (V2_declare le ds s)"
    using V2_struct_eq [of le ds s] by simp_all
  note eq = V2_declare_eq [of le ds s]
  show "c2_size c = totalSize ds"
    by (simp add: c V2_build_def eq Let_def)
  show "c2_read c s' = codec_read le (layout 0 ds)"
    by (rule ext) (simp add: c s' V2_build_def eq codec_read_def V2_read_loop_mk Let_def)
  show "c2_write c s' = codec_write le (totalSize ds) (layout 0 ds)"
    by (rule ext, rule ext)
      (simp add: c s' V2_build_def eq codec_write_def V2_write_loop_mk Let_def)
qed

lemma view_get_getter_name: "view_get (getter_name t) view off le = read_field le t off view"
  by (cases t) (simp_all add: view_get_def getter_name_def read_field_def)

lemma view_set_setter_name: "view_set (setter_name t) view off v le = write_field le t off view v"
  by (cases t) (simp_all add: view_set_def setter_name_def write_field_def)

lemma V1_read_body_layout:
  "V1_read_body (map (\<lambda>(n, t, off). (n, getter_name t, off, le)) L) view r =
     read_all le L view r"
  by (induction L arbitrary: view r)
    (auto simp: view_get_getter_name split: prod.splits sum.splits)

lemma V1_write_body_layout:
  "V1_write_body (map (\<lambda>(n, t, off). (n, setter_name t, off, le)) L) view d =
     write_all le L view d"
  by (induction L arbitrary: view)
    (auto simp: view_set_setter_name split: prod.splits sum.splits)

lemma V1_entries_map:
  "\<forall>(n, i) \<in> set fm. i < length flds \<Longrightarrow>
   V1_entries m flds le fm = Inr (map (\<lambda>(n, i). (n, m (flds ! i), f1_offset (flds ! i), le)) fm)"
  by (induction fm) (auto simp: Let_def)

lemma V1_entries_declare:
  "V1_entries f1_getter (b1_fields (V1_declare le ds)) le (b1_fieldMap (V1_declare le ds)) =
     Inr (map (\<lambda>(n, t, off). (n, getter_name t, off, le)) (V1_layout le ds))"
  "V1_entries f1_setter (b1_fields (V1_declare le ds)) le (b1_fieldMap (V1_declare le ds)) =
     Inr (map (\<lambda>(n, t, off). (n, setter_name t, off, le)) (V1_layout le ds))"
proof -
  have bound: "\<forall>(n, i) \<in> set (b1_fieldMap (V1_declare le ds)).
      i < length (b1_fields (V1_declare le ds))"
    using V1_declare_fieldMap_bound [of _ _ le ds] by (auto simp: V1_declare_fields)
  have mk: "i < length ds \<Longrightarrow>
      f1_getter (map V1_mk (layout 0 ds) ! i) = getter_name (fst (snd (layout 0 ds ! i))) \<and>
      f1_setter (map V1_mk (layout 0 ds) ! i) = setter_name (fst (snd (layout 0 ds ! i))) \<and>
      f1_offset (map V1_mk (layout 0 ds) ! i) = snd (snd (layout 0 ds ! i))" for i
    by (simp add: V1_mk_def case_prod_beta)
  show "V1_entries f1_getter (b1_fields (V1_declare le ds)) le (b1_fieldMap (V1_declare le ds)) =
     Inr (map (\<lambda>(n, t, off). (n, getter_name t, off, le)) (V1_layout le ds))"
    unfolding V1_entries_map [OF bound] V1_layout_def
    using V1_declare_fieldMap_bound [of _ _ le ds] mk
    by (auto simp: V1_declare_fields case_prod_beta)
  show "V1_entries f1_setter (b1_fields (V1_declare le ds)) le (b1_fieldMap (V1_declare le ds)) =
     Inr (map (\<lambda>(n, t, off). (n, setter_name t, off, le)) (V1_layout le ds))"
    unfolding V1_entries_map [OF bound] V1_layout_def
    using V1_declare_fieldMap_bound [of _ _ le ds] mk
    by (auto simp: V1_declare_fields case_prod_beta)
qed

lemma keys_update: "fst ` set (AList.update k v al) = insert k (fst ` set al)"
  by (induction al) auto

lemma V1_declare_keys: "fst ` set (b1_fieldMap (V1_declare le ds)) = fst ` set ds"
proof (induction ds rule: rev_induct)
  case Nil
  show ?case by (simp add: V1_declare_Nil V1_new_def)
next
  case (snoc d ds)
  obtain n t where d: "d = (n, t)" by (cases d)
  from snoc show ?case
    by (simp add: d V1_declare_snoc V1_addField_eq keys_update)
qed

lemma tokens_layout:
  "tokens (map (\<lambda>(n, t, off). (n, f t, off, le)) L) =
     map (\<lambda>(n, t, off). (n, f t, off, le)) (keyed L)"
  by (induction L) (auto simp: tokens_def keyed_def)

lemma keyed_names:
  "list_all (\<lambda>(name, _). IdentifierName name) (map (\<lambda>(n, t, off). (n, f t, off, le)) (keyed L))
     \<longleftrightarrow> list_all (\<lambda>n. IdentifierName (trim n)) (map fst L)"
  by (induction L) (auto simp: keyed_def)

lemma keyed_proto:
  "length (filter (\<lambda>(name, _). name = ''__proto__'')
       (map (\<lambda>(n, t, off). (n, f t, off, le)) (keyed L))) =
     length (filter (\<lambda>n. trim n = ''__proto__'') (map fst L))"
  by (induction L) (auto simp: keyed_def)



lemma not_WhiteSpace: "IdentifierPart c \<Longrightarrow> \<not> WhiteSpace c"
  by (auto simp: IdentifierPart_def IdentifierStart_def WhiteSpace_def Let_def)

lemma dropWhile_hd: "xs \<noteq> [] \<Longrightarrow> \<not> P (hd xs) \<Longrightarrow> dropWhile P xs = xs"
  by (cases xs) simp_all

lemma trim_IdentifierName:
  assumes "IdentifierName n"
  shows "trim n = n"
proof -
  from assms obtain c cs where n: "n = c # cs" and c: "IdentifierStart c"
    and cs: "list_all IdentifierPart cs"
    by (auto simp: IdentifierName_def split: list.splits)
  have part: "\<forall>x \<in> set n. IdentifierPart x"
    using c cs by (auto simp: n IdentifierPart_def list_all_iff)
  have "\<not> WhiteSpace (hd n)"
    using part by (simp add: n not_WhiteSpace)
  then have 1: "dropWhile WhiteSpace n = n"
    by (simp add: n)
  have "n \<noteq> []"
    by (simp add: n)
  then have "hd (rev n) \<in> set n"
    by (metis hd_rev last_in_set)
  with part have "IdentifierPart (hd (rev n))"
    by simp
  then have "\<not> WhiteSpace (hd (rev n))"
    by (rule not_WhiteSpace)
  then have "dropWhile WhiteSpace (rev n) = rev n"
    by (intro dropWhile_hd) (simp_all add: n)
  with 1 show ?thesis
    by (simp add: trim_def)
qed

lemma keyed_id: "list_all IdentifierName (map fst L) \<Longrightarrow> keyed L = L"
  by (induction L) (auto simp: keyed_def trim_IdentifierName)

lemma distinct_filter_eq: "distinct xs \<Longrightarrow> length (filter (\<lambda>x. x = a) xs) \<le> 1"
proof (induction xs)
  case Nil
  show ?case by simp
next
  case (Cons x xs)
  show ?case
  proof (cases "x = a")
    case True
    with Cons.prems have "a \<notin> set xs" by simp
    then have "filter (\<lambda>x. x = a) xs = []"
      by (auto simp: filter_empty_conv)
    with True show ?thesis by simp
  next
    case False
    with Cons show ?thesis by simp
  qed
qed

lemma parses_identifiers:
  assumes "distinct names" and "list_all IdentifierName names"
  shows "parses names"
proof -
  have t: "\<And>n. n \<in> set names \<Longrightarrow> trim n = n"
    using assms(2) by (auto simp: list_all_iff trim_IdentifierName)
  then have "filter (\<lambda>n. trim n = ''__proto__'') names = filter (\<lambda>n. n = ''__proto__'') names"
    by (intro filter_cong) auto
  with distinct_filter_eq [OF assms(1), of "''__proto__''"]
  have "length (filter (\<lambda>n. trim n = ''__proto__'') names) \<le> 1"
    by simp
  moreover have "list_all (\<lambda>n. IdentifierName (trim n)) names"
    using assms(2) t by (auto simp: list_all_iff)
  ultimately show ?thesis
    by (simp add: parses_def)
qed

lemma V1_struct_eq:
  "V1_struct le ds =
     (if parses (map fst (V1_layout le ds))
      then Inr \<lparr>c1_size = totalSize ds, c1_read = codec_read le (keyed (V1_layout le ds)),
                c1_write = codec_write le (totalSize ds) (keyed (V1_layout le ds))\<rparr>
      else Inl SyntaxError)"
proof -
  let ?b = "V1_declare le ds"
  let ?L = "V1_layout le ds"
  let ?G = "map (\<lambda>(n, t, off). (n, getter_name t, off, le)) ?L"
  let ?S = "map (\<lambda>(n, t, off). (n, setter_name t, off, le)) ?L"
  have f: "b1_size ?b = totalSize ds" "b1_littleEndian ?b = le"
    by (simp_all add: V1_declare_fields)
  have r: "(\<lambda>buffer. V1_read_body (map (\<lambda>(n, t, off). (n, getter_name t, off, le)) (keyed ?L))
      (as_DataView buffer) []) = codec_read le (keyed ?L)"
    by (rule ext) (simp add: codec_read_def V1_read_body_layout)
  have w: "(\<lambda>data buffer.
      case V1_write_body (map (\<lambda>(n, t, off). (n, setter_name t, off, le)) (keyed ?L))
          (target_DataView (totalSize ds) buffer) data of
        (Inl e, view') \<Rightarrow> (Inl e, view')
      | (Inr _, view') \<Rightarrow> (Inr (view_buffer view'), view')) =
      codec_write le (totalSize ds) (keyed ?L)"
    by (rule ext, rule ext) (simp add: codec_write_def V1_write_body_layout)
  have rf: "new_Function_read ?G =
      (if parses (map fst ?L) then Inr (codec_read le (keyed ?L)) else Inl SyntaxError)"
    unfolding new_Function_read_def tokens_layout keyed_names keyed_proto Let_def r parses_def
    by simp
  have wf: "new_Function_write (totalSize ds) ?S =
      (if list_all (\<lambda>n. IdentifierName (trim n)) (map fst ?L)
       then Inr (codec_write le (totalSize ds) (keyed ?L))
       else Inl SyntaxError)"
    unfolding new_Function_write_def tokens_layout keyed_names Let_def w
    by simp
  show ?thesis
    unfolding V1_struct_def V1_build_def Let_def f V1_entries_declare sum.case rf wf
    by (simp add: parses_def)
qed

lemma layout_nth:
  "i < length ds \<Longrightarrow>
   layout off ds ! i = (fst (ds ! i), snd (ds ! i), off + totalSize (take i ds))"
proof (induction ds arbitrary: off i)
  case Nil
  then show ?case by simp
next
  case (Cons d ds)
  obtain n t where d: "d = (n, t)" by (cases d)
  show ?case
  proof (cases i)
    case 0
    then show ?thesis by (simp add: d)
  next
    case (Suc j)
    with Cons.prems have "j < length ds" by simp
    from Cons.IH [OF this] show ?thesis
      by (simp add: d Suc add.assoc)
  qed
qed

lemma V1_layout_distinct:
  assumes "distinct (map fst ds)"
  shows "V1_layout le ds = layout 0 ds"
proof (rule nth_equalityI)
  show "length (V1_layout le ds) = length (layout 0 ds)"
    by (simp add: V1_layout_def V1_declare_fieldMap_distinct [OF assms])
next
  fix i
  assume "i < length (V1_layout le ds)"
  then have i: "i < length ds"
    by (simp add: V1_layout_def V1_declare_fieldMap_distinct [OF assms])
  then show "V1_layout le ds ! i = layout 0 ds ! i"
    by (simp add: V1_layout_def V1_declare_fieldMap_distinct [OF assms] layout_nth)
qed










section \<open>Writing, then reading\<close>

lemma V1_struct_codec:
  assumes "V1_struct le ds = Inr c"
  shows "c1_size c = totalSize ds"
    and "c1_read c = codec_read le (keyed (V1_layout le ds))"
    and "c1_write c = codec_write le (totalSize ds) (keyed (V1_layout le ds))"
  using assms by (auto simp: V1_struct_eq split: if_splits)

lemma map_fst_layout: "map fst (layout off ds) = map fst ds"
  by (induction ds arbitrary: off) auto

lemma V1_struct_identifiers:
  assumes "distinct (map fst ds)" and "list_all IdentifierName (map fst ds)"
  shows "V1_struct le ds =
    Inr \<lparr>c1_size = totalSize ds, c1_read = codec_read le (layout 0 ds),
         c1_write = codec_write le (totalSize ds) (layout 0 ds)\<rparr>"
proof -
  have L: "V1_layout le ds = layout 0 ds"
    by (rule V1_layout_distinct) (rule assms)
  have "parses (map fst ds)"
    by (rule parses_identifiers) (rule assms)+
  moreover have "keyed (layout 0 ds) = layout 0 ds"
    by (rule keyed_id) (simp add: map_fst_layout assms)
  ultimately show ?thesis
    by (simp add: V1_struct_eq L map_fst_layout)
qed

lemma V1_struct_codec_identifiers:
  assumes "V1_struct le ds = Inr c"
    and "distinct (map fst ds)" and "list_all IdentifierName (map fst ds)"
  shows "c1_size c = totalSize ds"
    and "c1_read c = codec_read le (layout 0 ds)"
    and "c1_write c = codec_write le (totalSize ds) (layout 0 ds)"
  using assms(1) unfolding V1_struct_identifiers [OF assms(2,3)] by auto

lemma length_encode_all [simp]: "length (encode_all le d ds) = totalSize ds"
  by (induction ds) (auto simp: encode_all_def)

lemma codec_write_layout_fresh:
  "codec_write le (totalSize ds) (layout 0 ds) d None =
     (Inr (encode_all le d ds), new_DataView (encode_all le d ds))"
proof -
  let ?v = "new_DataView (new_ArrayBuffer (totalSize ds))"
  have "0 + totalSize ds \<le> byteLength ?v"
    by (simp add: new_DataView_def new_ArrayBuffer_def byteLength_def)
  from write_all_layout [OF this, of le d] show ?thesis
    by (simp add: codec_write_def target_DataView_def new_DataView_def new_ArrayBuffer_def
        view_buffer_def)
qed

lemma codec_write_layout_buffer:
  assumes "totalSize ds \<le> length ab"
  shows "codec_write le (totalSize ds) (layout 0 ds) d (Some (ArrayBufferArg ab)) =
     (Inr (encode_all le d ds @ drop (totalSize ds) ab),
      new_DataView (encode_all le d ds @ drop (totalSize ds) ab))"
proof -
  let ?v = "new_DataView ab"
  have "0 + totalSize ds \<le> byteLength ?v"
    using assms by (simp add: new_DataView_def byteLength_def)
  from write_all_layout [OF this, of le d] show ?thesis
    by (simp add: codec_write_def target_DataView_def new_DataView_def view_buffer_def)
qed

lemma codec_read_layout:
  assumes "distinct (map fst ds)" and "''__proto__'' \<notin> fst ` set ds"
  shows "codec_read le (layout 0 ds) (ArrayBufferArg (encode_all le d ds @ post)) =
     (Inr (map (\<lambda>(n, t). (n, decode_field le t (encode_field le t (map_of d n)))) ds),
      new_DataView (encode_all le d ds @ post))"
proof -
  let ?v = "new_DataView (encode_all le d ds @ post)"
  have "dv_window ?v = [] @ encode_all le d ds @ post"
    by (simp add: new_DataView_def)
  from read_all_layout [OF this _ assms(1) _ assms(2), of 0 "[]"] show ?thesis
    by (simp add: codec_read_def as_DataView_def)
qed

lemma float32_bits_3_2: "float32_bits (Val (3 / 2)) = 0x3FC00000"
proof -
  have "float32_value 0x3FC00000 = Val (3 / 2)"
    by (simp add: float32_value_def)
  moreover have "float32_bits (float32_value 0x3FC00000) = 0x3FC00000"
    by (rule float32_bits_value) simp_all
  ultimately show ?thesis by simp
qed

lemma float32_bits_5_2: "float32_bits (Val (5 / 2)) = 0x40200000"
proof -
  have "float32_value 0x40200000 = Val (5 / 2)"
    by (simp add: float32_value_def)
  moreover have "float32_bits (float32_value 0x40200000) = 0x40200000"
    by (rule float32_bits_value) simp_all
  ultimately show ?thesis by simp
qed

lemma float32_bits_7_2: "float32_bits (Val (7 / 2)) = 0x40600000"
proof -
  have "float32_value 0x40600000 = Val (7 / 2)"
    by (simp add: float32_value_def)
  moreover have "float32_bits (float32_value 0x40600000) = 0x40600000"
    by (rule float32_bits_value) simp_all
  ultimately show ?thesis by simp
qed

lemma ToUint_numeral [simp]: "ToUint bits (Val (numeral k)) = numeral k mod 2 ^ bits"
  using ToUint_of_nat [of bits "numeral k"] by simp

lemma ToUint_0 [simp]: "ToUint bits (Val 0) = 0"
  using ToUint_of_nat [of bits 0] by simp

lemma ToUint_NaN [simp]: "ToUint bits NaN = 0"
  by (simp add: ToUint_def)

lemma le_bytes_numeral:
  "le_bytes 1 n = [word_of_nat n]"
  "le_bytes 2 n = [word_of_nat n, word_of_nat (n div 256)]"
  "le_bytes 4 n = [word_of_nat n, word_of_nat (n div 256), word_of_nat (n div 256 div 256),
     word_of_nat (n div 256 div 256 div 256)]"
proof -
  have n: "(1::nat) = Suc 0" "(2::nat) = Suc (Suc 0)" "(4::nat) = Suc (Suc (Suc (Suc 0)))"
    by simp_all
  show "le_bytes 1 n = [word_of_nat n]"
    unfolding n(1) by (simp only: le_bytes.simps)
  show "le_bytes 2 n = [word_of_nat n, word_of_nat (n div 256)]"
    unfolding n(2) by (simp only: le_bytes.simps)
  show "le_bytes 4 n = [word_of_nat n, word_of_nat (n div 256), word_of_nat (n div 256 div 256),
     word_of_nat (n div 256 div 256 div 256)]"
    unfolding n(3) by (simp only: le_bytes.simps)
qed

lemma encode_data:
  "encode_all True data ComplexStruct =
     [210, 4, 0, 0, 0, 0, 192, 63, 0, 0, 32, 64, 0, 0, 96, 64, 170, 170, 255, 0]"
  by (simp add: encode_all_def ComplexStruct_def data_def encode_field_def width_def
      ToNumber_def uint_bytes_def le_bytes_numeral float32_bits_3_2 float32_bits_5_2
      float32_bits_7_2)

section \<open>The claims\<close>

lemma distinct_ComplexStruct: "distinct (map fst ComplexStruct)"
  by (simp add: ComplexStruct_def)

lemma IdentifierName_ComplexStruct: "list_all IdentifierName (map fst ComplexStruct)"
  by (simp add: ComplexStruct_def IdentifierName_def IdentifierStart_def IdentifierPart_def)

lemma no_proto_ComplexStruct: "''__proto__'' \<notin> fst ` set ComplexStruct"
  by (simp add: ComplexStruct_def)

lemma V1_struct_ComplexStruct: "V1_struct True ComplexStruct = Inr structV1"
  by (simp add: structV1_def
      V1_struct_identifiers [OF distinct_ComplexStruct IdentifierName_ComplexStruct])

lemmas structV1_codec =
  V1_struct_codec_identifiers [OF V1_struct_ComplexStruct distinct_ComplexStruct
    IdentifierName_ComplexStruct]

lemma V2_struct_ComplexStruct: "V2_struct True ComplexStruct store0 = (structV2, storeV2)"
  by (simp add: structV2_def storeV2_def)

lemma totalSize_ComplexStruct: "totalSize ComplexStruct = 20"
  by (simp add: ComplexStruct_def totalSize_def width_def)

text \<open>
  Claim C7 (layout determinism). For every sequence of \<^verbatim>\<open>addField\<close> calls on a new
  builder, of either version, the size of the builder and of the struct it builds is the
  sum of the widths of the declared fields (1, 2, 4, 4 for uint8, uint16, uint32,
  float32), and the offset of each field is the sum of the widths of the fields declared
  before it.
\<close>

theorem layout_determinism:
  "b1_size (V1_declare le decls) = totalSize decls \<and>
   (\<forall>c. V1_struct le decls = Inr c \<longrightarrow> c1_size c = totalSize decls) \<and>
   length (b1_fields (V1_declare le decls)) = length decls \<and>
   (\<forall>i < length decls.
      f1_offset (b1_fields (V1_declare le decls) ! i) = totalSize (take i decls) \<and>
      f1_size (b1_fields (V1_declare le decls) ! i) = width (snd (decls ! i))) \<and>
   b2_size (fst (V2_declare le decls s)) = totalSize decls \<and>
   c2_size (fst (V2_struct le decls s)) = totalSize decls \<and>
   length (arrays (snd (V2_declare le decls s)) (b2_fields (fst (V2_declare le decls s))))
     = length decls \<and>
   (\<forall>i < length decls.
      f2_offset (arrays (snd (V2_declare le decls s)) (b2_fields (fst (V2_declare le decls s))) ! i)
        = totalSize (take i decls) \<and>
      f2_size (arrays (snd (V2_declare le decls s)) (b2_fields (fst (V2_declare le decls s))) ! i)
        = width (snd (decls ! i)))"
proof -
  have v1: "\<forall>c. V1_struct le decls = Inr c \<longrightarrow> c1_size c = totalSize decls"
    by (auto simp: V1_struct_eq split: if_splits)
  have f1: "\<forall>i < length decls.
      f1_offset (b1_fields (V1_declare le decls) ! i) = totalSize (take i decls) \<and>
      f1_size (b1_fields (V1_declare le decls) ! i) = width (snd (decls ! i))"
    by (simp add: V1_declare_fields layout_nth V1_mk_def)
  have c2: "c2_size (fst (V2_struct le decls s)) = totalSize decls"
    by (rule V2_struct_codec(1) [of le decls s _ "snd (V2_struct le decls s)"]) simp
  have f2: "\<forall>i < length decls.
      f2_offset (arrays (snd (V2_declare le decls s)) (b2_fields (fst (V2_declare le decls s))) ! i)
        = totalSize (take i decls) \<and>
      f2_size (arrays (snd (V2_declare le decls s)) (b2_fields (fst (V2_declare le decls s))) ! i)
        = width (snd (decls ! i))"
    by (simp add: V2_declare_eq layout_nth V2_mk_def)
  show ?thesis
    using v1 f1 c2 f2 by (simp add: V1_declare_fields V2_declare_eq)
qed

text \<open>The benchmark's struct: 20 bytes, with \<^verbatim>\<open>flags\<close>, the fifth field, at offset 16.\<close>

theorem layout_determinism_witness:
  "V1_struct True ComplexStruct = Inr structV1 \<and>
   4 < length ComplexStruct \<and>
   b1_size (V1_declare True ComplexStruct) = 20 \<and>
   c1_size structV1 = 20 \<and>
   f1_offset (b1_fields (V1_declare True ComplexStruct) ! 4) = 16 \<and>
   f1_size (b1_fields (V1_declare True ComplexStruct) ! 4) = 2 \<and>
   c2_size structV2 = 20 \<and>
   f2_offset (arrays (snd (V2_declare True ComplexStruct store0))
     (b2_fields (fst (V2_declare True ComplexStruct store0))) ! 4) = 16"
proof -
  have len: "4 < length ComplexStruct"
    by (simp add: ComplexStruct_def)
  have t: "totalSize (take 4 ComplexStruct) = 16" "width (snd (ComplexStruct ! 4)) = 2"
    by (simp_all add: ComplexStruct_def totalSize_def width_def)
  from layout_determinism [of True ComplexStruct store0] V1_struct_ComplexStruct len t
    totalSize_ComplexStruct
  show ?thesis
    unfolding structV2_def by (metis (no_types, lifting))
qed







lemma roundtrip_values:
  assumes "\<forall>(n, t) \<in> set ds. \<exists>x. map_of r n = Some x \<and> exact_for t x"
  shows "map (\<lambda>(n, t). (n, decode_field le t (encode_field le t (map_of r n)))) ds =
    map (\<lambda>(n, t). (n, the (map_of r n))) ds"
proof (rule map_cong [OF refl])
  fix f
  assume f: "f \<in> set ds"
  obtain n t where nt: "f = (n, t)" by (cases f)
  with f assms obtain x where "map_of r n = Some x" "exact_for t x" by auto
  then show "(case f of (n, t) \<Rightarrow> (n, decode_field le t (encode_field le t (map_of r n)))) =
      (case f of (n, t) \<Rightarrow> (n, the (map_of r n)))"
    by (simp add: nt roundtrip_field)
qed

lemma map_of_decls_values:
  assumes "distinct (map fst ds)" and "(n, t) \<in> set ds"
  shows "map_of (map (\<lambda>(n, t). (n, the (map_of r n))) ds) n = Some (the (map_of r n))"
proof -
  have "map_of (map (\<lambda>(n, t). (n, the (map_of r n))) ds) n =
      map_option (\<lambda>t. the (map_of r n)) (map_of ds n)"
    by (induction ds) auto
  moreover have "map_of ds n = Some t"
    using assms by simp
  ultimately show ?thesis by simp
qed

lemma exact_for_uint:
  "numeral k < (2::nat) ^ (8 * width t) \<Longrightarrow> t \<noteq> Float32 \<Longrightarrow> exact_for t (Val (numeral k))"
  "t \<noteq> Float32 \<Longrightarrow> exact_for t (Val 0)"
proof -
  show "numeral k < (2::nat) ^ (8 * width t) \<Longrightarrow> t \<noteq> Float32 \<Longrightarrow> exact_for t (Val (numeral k))"
    by (cases t) (auto simp: exact_for_def intro!: exI [of _ "numeral k"])
  show "t \<noteq> Float32 \<Longrightarrow> exact_for t (Val 0)"
    by (cases t) (auto simp: exact_for_def intro!: exI [of _ 0])
qed

lemma codec_roundtrip:
  assumes d: "distinct (map fst ds)"
    and np: "''__proto__'' \<notin> fst ` set ds"
    and ex: "\<forall>(n, t) \<in> set ds. \<exists>x. map_of r n = Some x \<and> exact_for t x"
    and tg: "target = None \<or> (\<exists>ab. target = Some (ArrayBufferArg ab) \<and> totalSize ds \<le> length ab)"
  shows "\<exists>bytes v. codec_write le (totalSize ds) (layout 0 ds) r target = (Inr bytes, v) \<and>
    fst (codec_read le (layout 0 ds) (ArrayBufferArg bytes)) =
      Inr (map (\<lambda>(n, t). (n, the (map_of r n))) ds)"
proof -
  from tg obtain post where
    "codec_write le (totalSize ds) (layout 0 ds) r target =
      (Inr (encode_all le r ds @ post), new_DataView (encode_all le r ds @ post))"
    using codec_write_layout_fresh [of le ds r] codec_write_layout_buffer [of ds _ le r]
    by (metis append_Nil2)
  moreover have "fst (codec_read le (layout 0 ds) (ArrayBufferArg (encode_all le r ds @ post))) =
      Inr (map (\<lambda>(n, t). (n, the (map_of r n))) ds)"
    by (simp add: codec_read_layout [OF d np] roundtrip_values [OF ex])
  ultimately show ?thesis by blast
qed

lemma trim_a_space: "trim ''a '' = ''a''"
  by (simp add: trim_def WhiteSpace_def)

lemma IdentifierName_a: "IdentifierName ''a''" "IdentifierName ''__proto__''"
  by (simp_all add: IdentifierName_def IdentifierStart_def IdentifierPart_def)

lemma V1_struct_a_space:
  "V1_struct True [(''a '', Uint8)] =
     Inr \<lparr>c1_size = 1, c1_read = codec_read True [(''a'', Uint8, 0)],
          c1_write = codec_write True 1 [(''a'', Uint8, 0)]\<rparr>"
proof -
  have L: "V1_layout True [(''a '', Uint8)] = [(''a '', Uint8, 0)]"
    using V1_layout_distinct [of "[(''a '', Uint8)]" True] by simp
  have "trim ''a '' \<noteq> ''__proto__''"
    by (simp add: trim_a_space)
  then have "parses [''a '']"
    by (simp add: parses_def trim_a_space IdentifierName_a)
  then show ?thesis
    by (simp add: V1_struct_eq L keyed_def trim_a_space width_def)
qed

lemma V1_struct_proto:
  "V1_struct True [(''__proto__'', Uint8)] =
     Inr \<lparr>c1_size = 1, c1_read = codec_read True [(''__proto__'', Uint8, 0)],
          c1_write = codec_write True 1 [(''__proto__'', Uint8, 0)]\<rparr>"
  using V1_struct_identifiers [of "[(''__proto__'', Uint8)]" True]
  by (simp add: IdentifierName_a width_def)

lemma codec_one_byte:
  "fst (codec_write True 1 [(n, Uint8, 0)] [(m, Val 5)] None) = Inr [if m = n then 5 else 0]"
  "fst (codec_read True [(n, Uint8, 0)] (ArrayBufferArg [b])) =
     Inr (if n = ''__proto__'' then [] else [(n, Val (of_nat (unat b)))])"
  by (simp_all add: codec_write_def codec_read_def target_DataView_def as_DataView_def
      new_DataView_def new_ArrayBuffer_def write_field_def read_field_def setUint8_def
      getUint8_def setUint_def getUint_def setBytes_def getBytes_def byteLength_def
      uint_bytes_def bytes_uint_def le_bytes_numeral ToNumber_def view_buffer_def
      set_property_def)

text \<open>
  Claim C4 (round trip), as stated: for every built layout with unique field names and
  every record with an exact value for every field, decoding the encoded record gives a
  record equal to it on every field. Two names refute it. A number given to
  \<^verbatim>\<open>__proto__\<close> makes no property, so both versions encode the field \<^verbatim>\<open>__proto__\<close> of
  value 5 as the byte 5 and decode a record without it. Version 1 reads the name
  \<^verbatim>\<open>a\<close> followed by a space as \<^verbatim>\<open>a\<close>: it builds, encodes the record that has the value 5
  under the declared name as 0, and decodes a record that has \<^verbatim>\<open>a\<close> only.
\<close>

theorem round_trip_fails_on_name:
  "exact_for Uint8 (Val 5) \<and>
   fst (c2_write (fst (V2_struct True [(''__proto__'', Uint8)] store0))
     (snd (V2_struct True [(''__proto__'', Uint8)] store0)) [(''__proto__'', Val 5)] None) =
     Inr [5] \<and>
   fst (c2_read (fst (V2_struct True [(''__proto__'', Uint8)] store0))
     (snd (V2_struct True [(''__proto__'', Uint8)] store0)) (ArrayBufferArg [5])) = Inr [] \<and>
   V1_struct True [(''__proto__'', Uint8)] =
     Inr (projr (V1_struct True [(''__proto__'', Uint8)])) \<and>
   fst (c1_write (projr (V1_struct True [(''__proto__'', Uint8)])) [(''__proto__'', Val 5)]
     None) = Inr [5] \<and>
   fst (c1_read (projr (V1_struct True [(''__proto__'', Uint8)])) (ArrayBufferArg [5])) =
     Inr [] \<and>
   V1_struct True [(''a '', Uint8)] = Inr (projr (V1_struct True [(''a '', Uint8)])) \<and>
   fst (c1_write (projr (V1_struct True [(''a '', Uint8)])) [(''a '', Val 5)] None) =
     Inr [0] \<and>
   fst (c1_read (projr (V1_struct True [(''a '', Uint8)])) (ArrayBufferArg [0])) =
     Inr [(''a'', Val 0)]"
proof -
  have e: "exact_for Uint8 (Val 5)"
    by (rule exact_for_uint) (simp_all add: width_def)
  note c2 = V2_struct_codec [OF prod.collapse [symmetric], of True "[(''__proto__'', Uint8)]"
      store0]
  have t: "totalSize [(''__proto__'', Uint8)] = 1"
    "layout 0 [(''__proto__'', Uint8)] = [(''__proto__'', Uint8, 0)]"
    by (simp_all add: width_def)
  have ne: "''a '' \<noteq> ''a''" "''a'' \<noteq> ''__proto__''"
    by simp_all
  show ?thesis
    unfolding c2 t V1_struct_proto V1_struct_a_space sum.sel V1_codec.simps codec_one_byte
    using e ne by simp
qed

text \<open>
  Claim C4, amended. For every struct declared with unique field names, none of them
  \<^verbatim>\<open>__proto__\<close>, and every record \<open>r\<close> with a value for every declared field, where the
  value of an integer field is an integer in the field's unsigned range and the value of
  a float32 field is representable in single precision: encoding \<open>r\<close>, into a fresh
  buffer or into an ArrayBuffer of at least the struct's size, and decoding the buffer
  that encode returns gives a record with the declared names that equals \<open>r\<close> on every
  declared field. That holds for version 2, and for version 1 when the names are
  identifier names.
\<close>

theorem round_trip:
  assumes "distinct (map fst decls)" and "''__proto__'' \<notin> fst ` set decls"
    and "\<forall>(n, t) \<in> set decls. \<exists>x. map_of r n = Some x \<and> exact_for t x"
    and "target = None \<or> (\<exists>ab. target = Some (ArrayBufferArg ab) \<and> totalSize decls \<le> length ab)"
  shows "(V1_struct le decls = Inr c1 \<and> list_all IdentifierName (map fst decls) \<longrightarrow>
      (\<exists>bytes v q. c1_write c1 r target = (Inr bytes, v) \<and>
         fst (c1_read c1 (ArrayBufferArg bytes)) = Inr q \<and>
         fst ` set q = fst ` set decls \<and>
         (\<forall>(n, t) \<in> set decls. map_of q n = map_of r n))) \<and>
    (V2_struct le decls s = (c2, s') \<longrightarrow>
      (\<exists>bytes v q. c2_write c2 s' r target = (Inr bytes, v) \<and>
         fst (c2_read c2 s' (ArrayBufferArg bytes)) = Inr q \<and>
         fst ` set q = fst ` set decls \<and>
         (\<forall>(n, t) \<in> set decls. map_of q n = map_of r n)))"
proof -
  let ?q = "map (\<lambda>(n, t). (n, the (map_of r n))) decls"
  have q: "\<forall>(n, t) \<in> set decls. map_of ?q n = map_of r n"
    using map_of_decls_values [OF assms(1), of _ _ r] assms(3) by fastforce
  have k: "fst ` set ?q = fst ` set decls"
    by force
  from codec_roundtrip [OF assms, of le] obtain bytes v where
    w: "codec_write le (totalSize decls) (layout 0 decls) r target = (Inr bytes, v)"
    and rd: "fst (codec_read le (layout 0 decls) (ArrayBufferArg bytes)) = Inr ?q"
    by blast
  show ?thesis
  proof (intro conjI impI; (elim conjE)?)
    assume "V1_struct le decls = Inr c1" and "list_all IdentifierName (map fst decls)"
    note c1 = V1_struct_codec_identifiers [OF this(1) assms(1) this(2)]
    show "\<exists>bytes v q. c1_write c1 r target = (Inr bytes, v) \<and>
         fst (c1_read c1 (ArrayBufferArg bytes)) = Inr q \<and>
         fst ` set q = fst ` set decls \<and>
         (\<forall>(n, t) \<in> set decls. map_of q n = map_of r n)"
      unfolding c1 using w rd q k by blast
  next
    assume "V2_struct le decls s = (c2, s')"
    note c2 = V2_struct_codec [OF this]
    show "\<exists>bytes v q. c2_write c2 s' r target = (Inr bytes, v) \<and>
         fst (c2_read c2 s' (ArrayBufferArg bytes)) = Inr q \<and>
         fst ` set q = fst ` set decls \<and>
         (\<forall>(n, t) \<in> set decls. map_of q n = map_of r n)"
      unfolding c2 using w rd q k by blast
  qed
qed

lemma is_float32_data: "is_float32 (Val (3 / 2))" "is_float32 (Val (5 / 2))" "is_float32 (Val (7 / 2))"
proof -
  have v: "float32_value 0x3FC00000 = Val (3 / 2)" "float32_value 0x40200000 = Val (5 / 2)"
    "float32_value 0x40600000 = Val (7 / 2)"
    by (simp_all add: float32_value_def)
  show "is_float32 (Val (3 / 2))"
    unfolding is_float32_def by (rule exI [of _ "0x3FC00000"]) (simp add: v)
  show "is_float32 (Val (5 / 2))"
    unfolding is_float32_def by (rule exI [of _ "0x40200000"]) (simp add: v)
  show "is_float32 (Val (7 / 2))"
    unfolding is_float32_def by (rule exI [of _ "0x40600000"]) (simp add: v)
qed

lemma data_exact:
  "\<forall>(n, t) \<in> set ComplexStruct. \<exists>x. map_of data n = Some x \<and> exact_for t x"
  by (simp add: ComplexStruct_def data_def exact_for_uint is_float32_data width_def
      exact_for_def [of Float32])

lemma data_values: "map (\<lambda>(n, t). (n, the (map_of data n))) ComplexStruct = data"
  by (simp add: ComplexStruct_def data_def)

text \<open>
  The benchmark's struct and record: every value is exact for its field, and the record
  comes back.
\<close>

theorem round_trip_witness:
  "distinct (map fst ComplexStruct) \<and> ''__proto__'' \<notin> fst ` set ComplexStruct \<and>
   list_all (\<lambda>(n, t). \<exists>x. map_of data n = Some x \<and> exact_for t x) ComplexStruct \<and>
   V1_struct True ComplexStruct = Inr structV1 \<and>
   list_all IdentifierName (map fst ComplexStruct) \<and>
   V2_struct True ComplexStruct store0 = (structV2, storeV2) \<and>
   (\<exists>bytes v q. c1_write structV1 data None = (Inr bytes, v) \<and>
      fst (c1_read structV1 (ArrayBufferArg bytes)) = Inr q \<and>
      list_all (\<lambda>(n, t). map_of q n = map_of data n) ComplexStruct) \<and>
   (\<exists>bytes v q. c2_write structV2 storeV2 data None = (Inr bytes, v) \<and>
      fst (c2_read structV2 storeV2 (ArrayBufferArg bytes)) = Inr q \<and>
      list_all (\<lambda>(n, t). map_of q n = map_of data n) ComplexStruct)"
proof -
  have t: "None = None \<or>
      (\<exists>ab. None = Some (ArrayBufferArg ab) \<and> totalSize ComplexStruct \<le> length ab)"
    by simp
  note rt = round_trip [OF distinct_ComplexStruct no_proto_ComplexStruct data_exact t,
      of True structV1 store0 structV2 storeV2]
  note p1 = mp [OF conjunct1 [OF rt]
      conjI [OF V1_struct_ComplexStruct IdentifierName_ComplexStruct]]
  note p2 = mp [OF conjunct2 [OF rt] V2_struct_ComplexStruct]
  from p1 obtain bytes1 v1 q1 where
    "c1_write structV1 data None = (Inr bytes1, v1)"
    "fst (c1_read structV1 (ArrayBufferArg bytes1)) = Inr q1"
    "\<forall>(n, t) \<in> set ComplexStruct. map_of q1 n = map_of data n"
    by blast
  then have c1: "\<exists>bytes v q. c1_write structV1 data None = (Inr bytes, v) \<and>
      fst (c1_read structV1 (ArrayBufferArg bytes)) = Inr q \<and>
      list_all (\<lambda>(n, t). map_of q n = map_of data n) ComplexStruct"
    unfolding list_all_iff by blast
  from p2 obtain bytes2 v2 q2 where
    "c2_write structV2 storeV2 data None = (Inr bytes2, v2)"
    "fst (c2_read structV2 storeV2 (ArrayBufferArg bytes2)) = Inr q2"
    "\<forall>(n, t) \<in> set ComplexStruct. map_of q2 n = map_of data n"
    by blast
  then have c2: "\<exists>bytes v q. c2_write structV2 storeV2 data None = (Inr bytes, v) \<and>
      fst (c2_read structV2 storeV2 (ArrayBufferArg bytes)) = Inr q \<and>
      list_all (\<lambda>(n, t). map_of q n = map_of data n) ComplexStruct"
    unfolding list_all_iff by blast
  have ex: "list_all (\<lambda>(n, t). \<exists>x. map_of data n = Some x \<and> exact_for t x) ComplexStruct"
    unfolding list_all_iff by (rule data_exact)
  from distinct_ComplexStruct no_proto_ComplexStruct ex V1_struct_ComplexStruct
    IdentifierName_ComplexStruct V2_struct_ComplexStruct c1 c2
  show ?thesis by (intro conjI)
qed

text \<open>
  Claim C6 (concrete scenario), as stated: the size of the little-endian struct
  \<^verbatim>\<open>id:uint32, x:float32, y:float32, z:float32, flags:uint16, type:uint8, reserved:uint8\<close>
  equals 18. It does not: the widths add up to 20.
\<close>

theorem concrete_size_not_18: "c1_size structV1 \<noteq> 18 \<and> c2_size structV2 \<noteq> 18"
  using V1_struct_codec(1) [OF V1_struct_ComplexStruct]
    V2_struct_codec(1) [OF V2_struct_ComplexStruct]
  by (simp add: totalSize_ComplexStruct)

text \<open>
  Claim C6, amended. For that struct, built by either version, the size is 20, and
  encoding \<^verbatim>\<open>{id:1234, x:1.5, y:2.5, z:3.5, flags:0b1010101010101010, type:255, reserved:0}\<close>
  then decoding the resulting buffer returns exactly
  \<^verbatim>\<open>{id:1234, x:1.5, y:2.5, z:3.5, flags:43690, type:255, reserved:0}\<close>.
\<close>

theorem concrete_scenario:
  "V1_struct True ComplexStruct = Inr structV1 \<and>
   V2_struct True ComplexStruct store0 = (structV2, storeV2) \<and>
   c1_size structV1 = 20 \<and> c2_size structV2 = 20 \<and>
   fst (c1_write structV1 data None) =
     Inr [210, 4, 0, 0, 0, 0, 192, 63, 0, 0, 32, 64, 0, 0, 96, 64, 170, 170, 255, 0] \<and>
   fst (c1_read structV1 (ArrayBufferArg
     [210, 4, 0, 0, 0, 0, 192, 63, 0, 0, 32, 64, 0, 0, 96, 64, 170, 170, 255, 0])) = Inr data \<and>
   fst (c2_write structV2 storeV2 data None) =
     Inr [210, 4, 0, 0, 0, 0, 192, 63, 0, 0, 32, 64, 0, 0, 96, 64, 170, 170, 255, 0] \<and>
   fst (c2_read structV2 storeV2 (ArrayBufferArg
     [210, 4, 0, 0, 0, 0, 192, 63, 0, 0, 32, 64, 0, 0, 96, 64, 170, 170, 255, 0])) = Inr data"
proof -
  let ?B = "[210, 4, 0, 0, 0, 0, 192, 63, 0, 0, 32, 64, 0, 0, 96, 64, 170, 170, 255, 0] :: byte list"
  note c1 = structV1_codec
  note c2 = V2_struct_codec [OF V2_struct_ComplexStruct]
  have w: "fst (codec_write True (totalSize ComplexStruct) (layout 0 ComplexStruct) data None) = Inr ?B"
    by (simp add: codec_write_layout_fresh encode_data)
  have "fst (codec_read True (layout 0 ComplexStruct)
      (ArrayBufferArg (encode_all True data ComplexStruct @ []))) = Inr data"
    unfolding codec_read_layout [OF distinct_ComplexStruct no_proto_ComplexStruct]
      roundtrip_values [OF data_exact]
      data_values by simp
  then have r: "fst (codec_read True (layout 0 ComplexStruct) (ArrayBufferArg ?B)) = Inr data"
    by (simp add: encode_data)
  show ?thesis
    unfolding c1 c2
    using V1_struct_ComplexStruct V2_struct_ComplexStruct w r
    by (simp add: totalSize_ComplexStruct)
qed






text \<open>
  Claim C2 (duplicate field name), as stated: \<^verbatim>\<open>addField\<close> with a name that is already
  declared fails at that call. It does not; \<^verbatim>\<open>addField\<close> has no failing path in either
  version. Declaring \<^verbatim>\<open>a\<close> twice gives a builder of size 3 with two fields: version 1
  maps \<^verbatim>\<open>a\<close> to the second and leaves the first without a name, version 2 keeps both
  under \<^verbatim>\<open>a\<close>.
\<close>

theorem duplicate_name_accepted:
  "V1_addField (V1_addField (V1_new True) ''a'' Uint8) ''a'' Uint16 =
     \<lparr>b1_size = 3,
      b1_fields =
        [\<lparr>f1_offset = 0, f1_size = 1, f1_getter = ''getUint8'', f1_setter = ''setUint8''\<rparr>,
         \<lparr>f1_offset = 1, f1_size = 2, f1_getter = ''getUint16'', f1_setter = ''setUint16''\<rparr>],
      b1_fieldMap = [(''a'', 1)], b1_littleEndian = True\<rparr> \<and>
   fst (V2_declare True [(''a'', Uint8), (''a'', Uint16)] store0) =
     \<lparr>b2_size = 3, b2_fields = 0, b2_littleEndian = True\<rparr> \<and>
   map f2_name (arrays (snd (V2_declare True [(''a'', Uint8), (''a'', Uint16)] store0)) 0) =
     [''a'', ''a''] \<and>
   map f2_offset (arrays (snd (V2_declare True [(''a'', Uint8), (''a'', Uint16)] store0)) 0) =
     [0, 1]"
proof -
  have "V1_addField (V1_addField (V1_new True) ''a'' Uint8) ''a'' Uint16 =
     \<lparr>b1_size = 3,
      b1_fields =
        [\<lparr>f1_offset = 0, f1_size = 1, f1_getter = ''getUint8'', f1_setter = ''setUint8''\<rparr>,
         \<lparr>f1_offset = 1, f1_size = 2, f1_getter = ''getUint16'', f1_setter = ''setUint16''\<rparr>],
      b1_fieldMap = [(''a'', 1)], b1_littleEndian = True\<rparr>"
    by (simp add: V1_addField_def V1_allocField_def V1_new_def)
  moreover have "fst (V2_declare True [(''a'', Uint8), (''a'', Uint16)] store0) =
     \<lparr>b2_size = 3, b2_fields = 0, b2_littleEndian = True\<rparr>"
    by (simp add: V2_declare_eq store0_def width_def)
  moreover have "arrays (snd (V2_declare True [(''a'', Uint8), (''a'', Uint16)] store0)) 0 =
      map (V2_mk True) (layout 0 [(''a'', Uint8), (''a'', Uint16)])"
    using V2_declare_eq [of True "[(''a'', Uint8), (''a'', Uint16)]" store0]
    by (simp add: store0_def)
  ultimately show ?thesis
    by (simp add: V2_mk_def width_def)
qed

text \<open>
  Claim C2, amended. For every builder and every field name already declared on it,
  \<^verbatim>\<open>addField\<close> with that name returns the builder as for a new name: one more field at
  the offset of the current size, and the size increased by the width of the type. In
  version 1 the map keeps its names and the name now leads to the new field; in version 2
  the array holds both fields under the one name.
\<close>

theorem addField_duplicate:
  "(name \<in> fst ` set (b1_fieldMap b1) \<longrightarrow>
      b1_size (V1_addField b1 name type) = b1_size b1 + width type \<and>
      b1_fields (V1_addField b1 name type) =
        b1_fields b1 @ [\<lparr>f1_offset = b1_size b1, f1_size = width type,
                          f1_getter = getter_name type, f1_setter = setter_name type\<rparr>] \<and>
      map fst (b1_fieldMap (V1_addField b1 name type)) = map fst (b1_fieldMap b1) \<and>
      map_of (b1_fieldMap (V1_addField b1 name type)) name = Some (length (b1_fields b1))) \<and>
   (name \<in> f2_name ` set (arrays s (b2_fields b2)) \<longrightarrow>
      b2_size (fst (V2_addField b2 name type s)) = b2_size b2 + width type \<and>
      b2_fields (fst (V2_addField b2 name type s)) = b2_fields b2 \<and>
      map f2_name (arrays (snd (V2_addField b2 name type s)) (b2_fields b2)) =
        map f2_name (arrays s (b2_fields b2)) @ [name] \<and>
      map f2_offset (arrays (snd (V2_addField b2 name type s)) (b2_fields b2)) =
        map f2_offset (arrays s (b2_fields b2)) @ [b2_size b2])"
proof (intro conjI impI)
  assume "name \<in> fst ` set (b1_fieldMap b1)"
  then show "map fst (b1_fieldMap (V1_addField b1 name type)) = map fst (b1_fieldMap b1)"
    by (simp add: V1_addField_eq update_keys)
qed (simp_all add: V1_addField_eq V2_addField_eq V1_mk_def V2_mk_def update_conv')

text \<open>
  A second \<^verbatim>\<open>a\<close> on a builder that has declared \<^verbatim>\<open>a\<close>.
\<close>

theorem addField_duplicate_witness:
  "''a'' \<in> fst ` set (b1_fieldMap (V1_addField (V1_new True) ''a'' Uint8)) \<and>
   b1_size (V1_addField (V1_addField (V1_new True) ''a'' Uint8) ''a'' Uint16) = 3 \<and>
   map_of (b1_fieldMap (V1_addField (V1_addField (V1_new True) ''a'' Uint8) ''a'' Uint16)) ''a''
     = Some 1 \<and>
   ''a'' \<in> f2_name ` set (arrays (snd (V2_declare True [(''a'', Uint8)] store0))
     (b2_fields (fst (V2_declare True [(''a'', Uint8)] store0)))) \<and>
   b2_size (fst (V2_addField (fst (V2_declare True [(''a'', Uint8)] store0)) ''a'' Uint16
     (snd (V2_declare True [(''a'', Uint8)] store0)))) = 3 \<and>
   map f2_name (arrays (snd (V2_addField (fst (V2_declare True [(''a'', Uint8)] store0)) ''a''
     Uint16 (snd (V2_declare True [(''a'', Uint8)] store0))))
     (b2_fields (fst (V2_declare True [(''a'', Uint8)] store0)))) = [''a'', ''a'']"
proof -
  let ?b1 = "V1_addField (V1_new True) ''a'' Uint8"
  let ?b2 = "fst (V2_declare True [(''a'', Uint8)] store0)"
  let ?s = "snd (V2_declare True [(''a'', Uint8)] store0)"
  have b1: "b1_size ?b1 = 1" "b1_fields ?b1 = [V1_mk (''a'', Uint8, 0)]"
    "b1_fieldMap ?b1 = [(''a'', 0)]"
    by (simp_all add: V1_addField_eq V1_new_def width_def)
  have b2: "b2_size ?b2 = 1" "b2_fields ?b2 = 0"
    "arrays ?s 0 = [V2_mk True (''a'', Uint8, 0)]"
    using V2_declare_eq [of True "[(''a'', Uint8)]" store0]
    by (simp_all add: store0_def width_def)
  have n: "f2_name (V2_mk True (''a'', Uint8, 0)) = ''a''"
    by (simp add: V2_mk_def)
  from addField_duplicate [of "''a''" ?b1 Uint16 ?s ?b2]
  show ?thesis
    unfolding b1 b2 by (simp add: n width_def)
qed

lemma not_parses_a_b: "\<not> parses [''a b'']"
  by (simp add: parses_def trim_def WhiteSpace_def IdentifierName_def IdentifierStart_def
      IdentifierPart_def)

text \<open>
  Claim C5 (strategy equivalence), as stated: for every sequence of declarations with
  unique names the two versions build structs that behave alike. They do not when a name
  is not an identifier name: for the one field \<^verbatim>\<open>a b\<close> the text version 1 synthesises
  does not parse and \<^verbatim>\<open>build\<close> throws SyntaxError, while version 2 builds a struct of
  size 1 that encodes the field.
\<close>

theorem strategies_differ_on_name:
  "V1_struct True [(''a b'', Uint8)] = Inl SyntaxError \<and>
   c2_size (fst (V2_struct True [(''a b'', Uint8)] store0)) = 1 \<and>
   fst (c2_write (fst (V2_struct True [(''a b'', Uint8)] store0))
     (snd (V2_struct True [(''a b'', Uint8)] store0)) [(''a b'', Val 5)] None) = Inr [5]"
proof -
  have v1: "V1_struct True [(''a b'', Uint8)] = Inl SyntaxError"
    by (simp add: V1_struct_eq V1_layout_distinct not_parses_a_b)
  note c2 = V2_struct_codec [OF prod.collapse [symmetric], of True "[(''a b'', Uint8)]" store0]
  have "encode_all True [(''a b'', Val 5)] [(''a b'', Uint8)] = [5]"
    by (simp add: encode_all_def encode_field_def width_def ToNumber_def uint_bytes_def
        le_bytes_numeral)
  then have "fst (codec_write True (totalSize [(''a b'', Uint8)]) (layout 0 [(''a b'', Uint8)])
      [(''a b'', Val 5)] None) = Inr [5]"
    unfolding codec_write_layout_fresh by simp
  with v1 show ?thesis
    unfolding c2 by (simp add: width_def)
qed

text \<open>
  Claim C5, amended. For every sequence of declarations with unique names that are
  identifier names, and the same byte order, version 1 builds a struct as version 2 does,
  and the two are alike: equal size, the same completion and view from \<^verbatim>\<open>read\<close> for
  every buffer, the same completion and bytes from \<^verbatim>\<open>write\<close> for every record and
  target.
\<close>

theorem strategy_equivalence:
  assumes "distinct (map fst decls)" and "list_all IdentifierName (map fst decls)"
  shows "V2_struct le decls s = (c2, s') \<longrightarrow>
    (\<exists>c1. V1_struct le decls = Inr c1 \<and> c1_size c1 = c2_size c2 \<and>
       (\<forall>buffer. c1_read c1 buffer = c2_read c2 s' buffer) \<and>
       (\<forall>r target. c1_write c1 r target = c2_write c2 s' r target))"
proof
  assume "V2_struct le decls s = (c2, s')"
  note c2 = V2_struct_codec [OF this]
  have "V1_struct le decls =
      Inr \<lparr>c1_size = totalSize decls, c1_read = codec_read le (layout 0 decls),
           c1_write = codec_write le (totalSize decls) (layout 0 decls)\<rparr>"
    by (rule V1_struct_identifiers) (rule assms)+
  then show "\<exists>c1. V1_struct le decls = Inr c1 \<and> c1_size c1 = c2_size c2 \<and>
       (\<forall>buffer. c1_read c1 buffer = c2_read c2 s' buffer) \<and>
       (\<forall>r target. c1_write c1 r target = c2_write c2 s' r target)"
    by (simp add: c2)
qed

text \<open>
  The benchmark's struct.
\<close>

theorem strategy_equivalence_witness:
  "distinct (map fst ComplexStruct) \<and> list_all IdentifierName (map fst ComplexStruct) \<and>
   V2_struct True ComplexStruct store0 = (structV2, storeV2) \<and>
   V1_struct True ComplexStruct = Inr structV1 \<and>
   c1_size structV1 = c2_size structV2 \<and>
   c1_read structV1 (ArrayBufferArg (replicate 20 1)) =
     c2_read structV2 storeV2 (ArrayBufferArg (replicate 20 1)) \<and>
   c1_write structV1 data None = c2_write structV2 storeV2 data None"
proof -
  from strategy_equivalence [OF distinct_ComplexStruct IdentifierName_ComplexStruct,
      of True store0 structV2 storeV2] V2_struct_ComplexStruct V1_struct_ComplexStruct
  have "c1_size structV1 = c2_size structV2 \<and>
       (\<forall>buffer. c1_read structV1 buffer = c2_read structV2 storeV2 buffer) \<and>
       (\<forall>r target. c1_write structV1 r target = c2_write structV2 storeV2 r target)"
    by auto
  with distinct_ComplexStruct IdentifierName_ComplexStruct V2_struct_ComplexStruct
    V1_struct_ComplexStruct
  show ?thesis by blast
qed

text \<open>
  Claim C3 (a built struct is isolated from its builder). Version 2 fails it: its
  \<^verbatim>\<open>build\<close> copies the size and hands the builder's own array to \<^verbatim>\<open>read\<close> and
  \<^verbatim>\<open>write\<close>. After \<^verbatim>\<open>addField\<close> on the builder, the struct built before, of size 1,
  throws RangeError on the buffer of one byte it decoded before, returns a further field
  from a buffer of two bytes, and throws RangeError when it encodes into a fresh buffer.
  The functions of version 1 are synthesised when \<^verbatim>\<open>build\<close> runs and hold nothing of
  the builder.
\<close>

theorem V2_struct_sees_later_addField:
  "(let (b, s1) = V2_declare True [(''a'', Uint8)] store0;
        c = V2_build b;
        (b', s2) = V2_addField b ''b'' Uint8 s1
    in c2_size c = 1 \<and>
       fst (c2_read c s1 (ArrayBufferArg [7])) = Inr [(''a'', Val 7)] \<and>
       fst (c2_read c s2 (ArrayBufferArg [7])) = Inl RangeError \<and>
       fst (c2_read c s1 (ArrayBufferArg [7, 9])) = Inr [(''a'', Val 7)] \<and>
       fst (c2_read c s2 (ArrayBufferArg [7, 9])) = Inr [(''a'', Val 7), (''b'', Val 9)] \<and>
       fst (c2_write c s1 [(''a'', Val 5), (''b'', Val 6)] None) = Inr [5] \<and>
       fst (c2_write c s2 [(''a'', Val 5), (''b'', Val 6)] None) = Inl RangeError)"
proof -
  let ?b = "fst (V2_declare True [(''a'', Uint8)] store0)"
  let ?s1 = "snd (V2_declare True [(''a'', Uint8)] store0)"
  let ?s2 = "snd (V2_addField ?b ''b'' Uint8 ?s1)"
  have b: "?b = \<lparr>b2_size = 1, b2_fields = 0, b2_littleEndian = True\<rparr>"
    and a1: "arrays ?s1 0 = [V2_mk True (''a'', Uint8, 0)]"
    using V2_declare_eq [of True "[(''a'', Uint8)]" store0]
    by (simp_all add: store0_def width_def)
  have a2: "arrays ?s2 0 = [V2_mk True (''a'', Uint8, 0), V2_mk True (''b'', Uint8, 1)]"
    by (simp add: V2_addField_eq b a1)
  have rd: "V2_read_loop [V2_mk True (''a'', Uint8, 0)] (as_DataView (ArrayBufferArg bs)) [] =
      codec_read True [(''a'', Uint8, 0)] (ArrayBufferArg bs)"
    "V2_read_loop [V2_mk True (''a'', Uint8, 0), V2_mk True (''b'', Uint8, 1)]
       (as_DataView (ArrayBufferArg bs)) [] =
      codec_read True [(''a'', Uint8, 0), (''b'', Uint8, 1)] (ArrayBufferArg bs)" for bs
    using V2_read_loop_mk [of True "[(''a'', Uint8, 0)]"]
      V2_read_loop_mk [of True "[(''a'', Uint8, 0), (''b'', Uint8, 1)]"]
    by (simp_all add: codec_read_def)
  have ev: "fst (codec_read True [(''a'', Uint8, 0)] (ArrayBufferArg [7])) = Inr [(''a'', Val 7)]"
    "fst (codec_read True [(''a'', Uint8, 0), (''b'', Uint8, 1)] (ArrayBufferArg [7])) = Inl RangeError"
    "fst (codec_read True [(''a'', Uint8, 0)] (ArrayBufferArg [7, 9])) = Inr [(''a'', Val 7)]"
    "fst (codec_read True [(''a'', Uint8, 0), (''b'', Uint8, 1)] (ArrayBufferArg [7, 9])) =
       Inr [(''a'', Val 7), (''b'', Val 9)]"
    by (simp_all add: codec_read_def as_DataView_def new_DataView_def read_field_def
        getUint8_def getUint_def getBytes_def byteLength_def bytes_uint_def set_property_def)
  have wr: "fst (case V2_write_loop [V2_mk True (''a'', Uint8, 0)]
        (target_DataView 1 None) [(''a'', Val 5), (''b'', Val 6)] of
      (Inl e, view') \<Rightarrow> (Inl e, view') | (Inr _, view') \<Rightarrow> (Inr (view_buffer view'), view')) = Inr [5]"
    "fst (case V2_write_loop [V2_mk True (''a'', Uint8, 0), V2_mk True (''b'', Uint8, 1)]
        (target_DataView 1 None) [(''a'', Val 5), (''b'', Val 6)] of
      (Inl e, view') \<Rightarrow> (Inl e, view') | (Inr _, view') \<Rightarrow> (Inr (view_buffer view'), view')) =
      Inl RangeError"
    by (simp_all add: V2_mk_def target_DataView_def new_DataView_def new_ArrayBuffer_def
        write_field_def setUint8_def setUint_def setBytes_def byteLength_def uint_bytes_def
        le_bytes_numeral ToNumber_def view_buffer_def)
  have sz: "c2_size (V2_build ?b) = 1"
    and r1: "c2_read (V2_build ?b) s buf = V2_read_loop (arrays s 0) (as_DataView buf) []"
    and w1: "c2_write (V2_build ?b) s d None =
      (case V2_write_loop (arrays s 0) (target_DataView 1 None) d of
         (Inl e, view') \<Rightarrow> (Inl e, view')
       | (Inr _, view') \<Rightarrow> (Inr (view_buffer view'), view'))" for s buf d
    by (simp_all add: V2_build_def b Let_def)
  have reads:
    "fst (c2_read (V2_build ?b) ?s1 (ArrayBufferArg [7])) = Inr [(''a'', Val 7)]"
    "fst (c2_read (V2_build ?b) ?s2 (ArrayBufferArg [7])) = Inl RangeError"
    "fst (c2_read (V2_build ?b) ?s1 (ArrayBufferArg [7, 9])) = Inr [(''a'', Val 7)]"
    "fst (c2_read (V2_build ?b) ?s2 (ArrayBufferArg [7, 9])) =
       Inr [(''a'', Val 7), (''b'', Val 9)]"
    unfolding r1 a1 a2 rd by (rule ev)+
  have writes:
    "fst (c2_write (V2_build ?b) ?s1 [(''a'', Val 5), (''b'', Val 6)] None) = Inr [5]"
    "fst (c2_write (V2_build ?b) ?s2 [(''a'', Val 5), (''b'', Val 6)] None) = Inl RangeError"
    unfolding w1 a1 a2 by (rule wr)+
  show ?thesis
    unfolding Let_def case_prod_beta using sz reads writes by blast
qed

end
